theory Spec2Isabelle
  imports Complex_Main "HOL-Library.Word"
begin

section \<open>JSON documents as the jansson library presents them\<close>

text \<open>
  The adapter (\<^verbatim>\<open>src/exchange/bitfinex.cpp\<close>) works on jansson values through
  \<^verbatim>\<open>json_t *\<close> pointers.  A pointer is modelled by \<open>json option\<close> with \<open>None\<close> for
  \<^verbatim>\<open>NULL\<close>.  C \<^verbatim>\<open>double\<close> values are modelled by the real number they denote:
  rounding to binary64, infinities, NaN and the sign of zero are outside the model.
  \<^verbatim>\<open>json_int_t\<close> is a 64-bit signed integer.  The source's variable \<^verbatim>\<open>root\<close> is written
  \<open>jroot\<close> throughout (\<open>root\<close> is HOL's n-th root).
\<close>

type_synonym double = real

datatype json =
    JObject "(string \<times> json) list"
  | JArray "json list"
  | JString string
  | JInteger "64 word"
  | JReal double
  | JTrue
  | JFalse
  | JNull

fun json_object_get :: "json option \<Rightarrow> string \<Rightarrow> json option" where
  "json_object_get (Some (JObject kvs)) key = map_of kvs key"
| "json_object_get _ key = None"

fun json_string_value :: "json option \<Rightarrow> string option" where
  "json_string_value (Some (JString s)) = Some s"
| "json_string_value _ = None"

fun json_integer_value :: "json option \<Rightarrow> 64 word" where
  "json_integer_value (Some (JInteger n)) = n"
| "json_integer_value _ = 0"

fun json_is_false :: "json option \<Rightarrow> bool" where
  "json_is_false (Some JFalse) = True"
| "json_is_false _ = False"

fun json_array_size :: "json option \<Rightarrow> nat" where
  "json_array_size (Some (JArray xs)) = length xs"
| "json_array_size _ = 0"

fun json_array_get :: "json option \<Rightarrow> nat \<Rightarrow> json option" where
  "json_array_get (Some (JArray xs)) i = (if i < length xs then Some (xs ! i) else None)"
| "json_array_get _ i = None"

text \<open>The elements \<^verbatim>\<open>json_array_get\<close> yields for the indices below \<^verbatim>\<open>json_array_size\<close>, in order.\<close>

fun json_array_elements :: "json option \<Rightarrow> json list" where
  "json_array_elements (Some (JArray xs)) = xs"
| "json_array_elements _ = []"

section \<open>Unpacking with a format\<close>

fun type_name :: "json \<Rightarrow> string" where
  "type_name (JObject kvs) = ''object''"
| "type_name (JArray xs) = ''array''"
| "type_name (JString s) = ''string''"
| "type_name (JInteger n) = ''integer''"
| "type_name (JReal x) = ''real''"
| "type_name JTrue = ''true''"
| "type_name JFalse = ''false''"
| "type_name JNull = ''null''"

text \<open>
  One \<^verbatim>\<open>s:s\<close> item of a jansson unpack format applied to an object: the member must
  exist and be a string.  \<open>Inl\<close> carries the text of \<^verbatim>\<open>json_error_t\<close>.
\<close>

definition unpack_member :: "(string \<times> json) list \<Rightarrow> string \<Rightarrow> string + string" where
  "unpack_member kvs key =
     (case map_of kvs key of
        None \<Rightarrow> Inl (''Object item not found: '' @ key)
      | Some (JString s) \<Rightarrow> Inr s
      | Some v \<Rightarrow> Inl (''Expected string, got '' @ type_name v))"

text \<open>
  \<^verbatim>\<open>json_unpack_ex(j, &err, 0, "{s:s, s:s, s:s}", k1, &v1, k2, &v2, k3, &v3)\<close>: the keys are
  processed in order and the first failure is the one reported; members beyond the three
  are allowed (no \<^verbatim>\<open>JSON_STRICT\<close>).
\<close>

definition json_unpack_sss ::
    "json option \<Rightarrow> string \<Rightarrow> string \<Rightarrow> string \<Rightarrow> string + (string \<times> string \<times> string)" where
  "json_unpack_sss j k1 k2 k3 =
     (case j of
        None \<Rightarrow> Inl ''NULL root value''
      | Some (JObject kvs) \<Rightarrow>
          (case unpack_member kvs k1 of
             Inl e \<Rightarrow> Inl e
           | Inr v1 \<Rightarrow>
               (case unpack_member kvs k2 of
                  Inl e \<Rightarrow> Inl e
                | Inr v2 \<Rightarrow>
                    (case unpack_member kvs k3 of
                       Inl e \<Rightarrow> Inl e
                     | Inr v3 \<Rightarrow> Inr (v1, v2, v3))))
      | Some v \<Rightarrow> Inl (''Expected object, got '' @ type_name v))"

section \<open>Errors, the log stream and the outside world\<close>

text \<open>
  Everything that ends a call abnormally is a value of \<open>error\<close>:
  a failure raised by the transport, the two exceptions of \<^verbatim>\<open>std::stod\<close>
  (\<^verbatim>\<open>std::invalid_argument\<close>, \<^verbatim>\<open>std::out_of_range\<close>) and the dereference of a
  null \<^verbatim>\<open>const char *\<close> by \<^verbatim>\<open>atof\<close>.
\<close>

datatype error = TransportFailure | InvalidArgument | OutOfRange | NullPointer

text \<open>
  The log is a \<^verbatim>\<open>std::ostream\<close>.  Its content is the sequence of texts inserted
  with \<^verbatim>\<open><<\<close> (\<^verbatim>\<open>std::endl\<close> is a line feed); inserting a null \<^verbatim>\<open>const char *\<close> sets
  \<^verbatim>\<open>badbit\<close>, after which every insertion is a no-op.
\<close>

record ostream =
  items :: "string list"
  badbit :: bool

definition put :: "string list \<Rightarrow> ostream \<Rightarrow> ostream" where
  "put xs os = (if badbit os then os else os\<lparr>items := items os @ xs\<rparr>)"

definition put_cstr :: "string option \<Rightarrow> ostream \<Rightarrow> ostream" where
  "put_cstr s os = (case s of None \<Rightarrow> (if badbit os then os else os\<lparr>badbit := True\<rparr>)
                             | Some t \<Rightarrow> put [t] os)"

record timeval =
  tv_sec :: int
  tv_usec :: int

datatype http_verb = GET | POST

record http_request =
  verb :: http_verb
  path :: string
  headers :: "string list"

text \<open>
  The world outside the adapter: the wall clock (\<open>clock w k\<close> is what the \<open>k\<close>-th call
  of \<^verbatim>\<open>gettimeofday\<close> reads), the exchange behind the transport (its answer may depend
  on every request sent before), the requests sent so far, the log stream, and OpenSSL's
  HMAC-SHA384 (key, then message).
\<close>

record world =
  clock :: "nat \<Rightarrow> timeval"
  reads :: nat
  exchange :: "http_request list \<Rightarrow> http_request \<Rightarrow> error + json"
  sent :: "http_request list"
  logFile :: ostream
  hmac_sha384 :: "string \<Rightarrow> string \<Rightarrow> string"

text \<open>Modelled from the spec: the fields of \<^verbatim>\<open>Parameters\<close> (\<^verbatim>\<open>parameters.h\<close>) the adapter reads.\<close>

record Parameters =
  bitfinexApi :: string
  bitfinexSecret :: string
  orderBookFactor :: double
  cacert :: string

definition gettimeofday :: "world \<Rightarrow> timeval \<times> world" where
  "gettimeofday w = (clock w (reads w), w\<lparr>reads := Suc (reads w)\<rparr>)"

text \<open>
  Modelled from the spec: the transport \<^verbatim>\<open>RestApi\<close> (\<^verbatim>\<open>utils/restapi.h\<close>) is not among
  the sources; it "performs GET/POST over HTTPS, returns parsed JSON or raises a transport
  error".  A request is recorded as sent and answered by the exchange.
\<close>

definition transport :: "http_request \<Rightarrow> world \<Rightarrow> (error + json) \<times> world" where
  "transport rq w = (exchange w (sent w) rq, w\<lparr>sent := sent w @ [rq]\<rparr>)"


definition postRequest :: "string \<Rightarrow> string list \<Rightarrow> world \<Rightarrow> (error + json) \<times> world" where
  "postRequest url hs w = transport \<lparr>verb = POST, path = url, headers = hs\<rparr> w"

section \<open>Codec helpers\<close>

definition digit_char :: "nat \<Rightarrow> char" where
  "digit_char n = ''0123456789'' ! n"

text \<open>The decimal numeral of a natural number, as \<^verbatim>\<open>std::to_string\<close> prints it.\<close>

fun digits10 :: "nat \<Rightarrow> string" where
  "digits10 n = (if n < 10 then [digit_char n] else digits10 (n div 10) @ [digit_char (n mod 10)])"

declare digits10.simps [simp del]

definition to_string_ull :: "64 word \<Rightarrow> string" where
  "to_string_ull n = digits10 (unat n)"

definition to_string_ll :: "64 word \<Rightarrow> string" where
  "to_string_ll n = (if sint n < 0 then CHR ''-'' # digits10 (nat (- sint n)) else digits10 (nat (sint n)))"

definition b64_alphabet :: string where
  "b64_alphabet = ''ABCDEFGHIJKLMNOPQRSTUVWXYZabcdefghijklmnopqrstuvwxyz0123456789+/''"

definition b64 :: "nat \<Rightarrow> char" where
  "b64 n = b64_alphabet ! n"

text \<open>
  Modelled from the spec: \<^verbatim>\<open>base64_encode\<close> (\<^verbatim>\<open>utils/base64.h\<close>) is not among the sources;
  the spec says "base64-encode the UTF-8 bytes".  This is the standard encoding with padding.
\<close>

fun base64_encode :: "string \<Rightarrow> string" where
  "base64_encode [] = []"
| "base64_encode [a] =
     (let x = of_char a :: nat in [b64 (x div 4), b64 ((x mod 4) * 16), CHR ''='', CHR ''=''])"
| "base64_encode [a, b] =
     (let x = of_char a :: nat; y = of_char b :: nat
      in [b64 (x div 4), b64 ((x mod 4) * 16 + y div 16), b64 ((y mod 16) * 4), CHR ''=''])"
| "base64_encode (a # b # c # rest) =
     (let x = of_char a :: nat; y = of_char b :: nat; z = of_char c :: nat
      in [b64 (x div 4), b64 ((x mod 4) * 16 + y div 16), b64 ((y mod 16) * 4 + z div 64), b64 (z mod 64)]
         @ base64_encode rest)"

definition hex_digit :: "nat \<Rightarrow> char" where
  "hex_digit n = ''0123456789abcdef'' ! n"

text \<open>
  Modelled from the spec: \<^verbatim>\<open>hex_str\<close> (\<^verbatim>\<open>hex_str.hpp\<close>) is not among the sources; the spec
  says "render the digest as lowercase hexadecimal".
\<close>

definition hex_str :: "string \<Rightarrow> string" where
  "hex_str bs = concat (map (\<lambda>c. [hex_digit (of_char c div 16), hex_digit (of_char c mod 16)]) bs)"


section \<open>Text to number conversions of the C and C++ libraries\<close>

text \<open>
  \<open>strtod\<close> models the decimal form of the subject sequence of C's \<^verbatim>\<open>strtod\<close>: white
  space, an optional sign, digits with an optional radix point (at least one digit), an
  optional exponent.  The result is \<open>None\<close> when no conversion can be performed and the
  exact decimal value otherwise.  The hexadecimal form and the spellings of infinity and
  NaN have no value in \<open>double\<close> as modelled here, and the model does not recognise them:
  it reads such text as the decimal form alone would be read.
\<close>

definition isspace :: "char \<Rightarrow> bool" where
  "isspace c \<longleftrightarrow> c \<in> set [CHR '' '', CHR 0x09, CHR 0x0A, CHR 0x0B, CHR 0x0C, CHR 0x0D]"

definition isdigit :: "char \<Rightarrow> bool" where
  "isdigit c \<longleftrightarrow> 48 \<le> (of_char c :: nat) \<and> (of_char c :: nat) \<le> 57"

definition digit_value :: "char \<Rightarrow> nat" where
  "digit_value c = of_char c - 48"

definition decimal :: "string \<Rightarrow> nat" where
  "decimal ds = foldl (\<lambda>a c. 10 * a + digit_value c) 0 ds"

fun strip_sign :: "string \<Rightarrow> bool \<times> string" where
  "strip_sign [] = (False, [])"
| "strip_sign (c # cs) =
     (if c = CHR ''-'' then (True, cs) else if c = CHR ''+'' then (False, cs) else (False, c # cs))"

definition scale10 :: "double \<Rightarrow> int \<Rightarrow> double" where
  "scale10 x e = (if 0 \<le> e then x * 10 ^ nat e else x / 10 ^ nat (- e))"

text \<open>The decimal exponent that follows the digits: 0 when there is none or it has no digit.\<close>

fun exponent_part :: "string \<Rightarrow> int" where
  "exponent_part [] = 0"
| "exponent_part (c # cs) =
     (if c = CHR ''e'' \<or> c = CHR ''E'' then
        (let (neg, ds) = strip_sign cs; ex = takeWhile isdigit ds
         in if ex = [] then 0 else if neg then - int (decimal ex) else int (decimal ex))
      else 0)"

definition strtod :: "string \<Rightarrow> double option" where
  "strtod nptr =
     (let (neg, s) = strip_sign (dropWhile isspace nptr);
          ip = takeWhile isdigit s;
          r = dropWhile isdigit s;
          fp = (case r of [] \<Rightarrow> [] | c # cs \<Rightarrow> if c = CHR ''.'' then takeWhile isdigit cs else []);
          r' = (case r of [] \<Rightarrow> [] | c # cs \<Rightarrow> if c = CHR ''.'' then dropWhile isdigit cs else r)
      in if ip = [] \<and> fp = [] then None
         else let m = real (decimal (ip @ fp)) / 10 ^ length fp;
                  v = scale10 m (exponent_part r')
              in Some (if neg then - v else v))"

text \<open>
  \<^verbatim>\<open>strtod\<close> reports \<^verbatim>\<open>ERANGE\<close> when the value rounds to an infinity, and when it is
  below the least normal number and not representable.
\<close>

definition range_error :: "double \<Rightarrow> bool" where
  "range_error v \<longleftrightarrow> 2 ^ 1024 - 2 ^ 970 \<le> \<bar>v\<bar> \<or> (v \<noteq> 0 \<and> \<bar>v\<bar> < 1 / 2 ^ 1022 \<and> v * 2 ^ 1074 \<notin> \<int>)"

text \<open>
  \<^verbatim>\<open>std::stod\<close>: \<^verbatim>\<open>std::invalid_argument\<close> when no conversion can be performed,
  \<^verbatim>\<open>std::out_of_range\<close> when \<^verbatim>\<open>strtod\<close> reports \<^verbatim>\<open>ERANGE\<close>.
\<close>

definition stod :: "string \<Rightarrow> error + double" where
  "stod str = (case strtod str of
                 None \<Rightarrow> Inl InvalidArgument
               | Some v \<Rightarrow> if range_error v then Inl OutOfRange else Inr v)"

text \<open>
  \<^verbatim>\<open>atof\<close>: 0.0 when no conversion can be performed; no error is reported.  The argument is
  a \<^verbatim>\<open>const char *\<close>, and a null pointer is dereferenced.
\<close>

definition atof :: "string option \<Rightarrow> error + double" where
  "atof nptr = (case nptr of
                  None \<Rightarrow> Inl NullPointer
                | Some s \<Rightarrow> Inr (case strtod s of None \<Rightarrow> 0 | Some v \<Rightarrow> v))"


section \<open>Numbers to text: the default formatting of an output stream\<close>

text \<open>
  \<^verbatim>\<open>operator<<\<close> of a \<^verbatim>\<open>std::ostream\<close> with its default flags prints a \<^verbatim>\<open>double\<close> as
  \<^verbatim>\<open>printf\<close> does with \<^verbatim>\<open>%g\<close> and precision 6.  \<open>fmt_g P x\<close> models \<^verbatim>\<open>%.Pg\<close>: the value is
  rounded (to nearest, ties to even) to \<open>P\<close> significant decimal digits, with decimal
  exponent \<open>X\<close>; the fixed notation is used when \<open>-4 \<le> X < P\<close> and the scientific one
  otherwise; trailing zeros of the fraction are removed, and the point with them when no
  fraction remains.  \<open>up10\<close> and \<open>down10\<close> find the decimal exponent of a positive number
  by repeated division and multiplication.
\<close>


definition round_half_even :: "real \<Rightarrow> int" where
  "round_half_even x =
     (let f = \<lfloor>x\<rfloor>; d = x - of_int f
      in if d < 1 / 2 then f else if 1 / 2 < d then f + 1 else if even f then f else f + 1)"

function up10 :: "real \<Rightarrow> nat" where
  "up10 x = (if x < 10 then 0 else Suc (up10 (x / 10)))"
  by pat_completeness auto
termination
proof (relation "measure (\<lambda>x. nat \<lfloor>x\<rfloor>)")
  show "wf (measure (\<lambda>x::real. nat \<lfloor>x\<rfloor>))" by simp
next
  fix x :: real
  assume "\<not> x < 10"
  then have x: "10 \<le> x" by simp
  then have "x / 10 \<le> x - 9" by simp
  then have "\<lfloor>x / 10\<rfloor> \<le> \<lfloor>x - 9\<rfloor>" by (rule floor_mono)
  also have "\<lfloor>x - 9\<rfloor> = \<lfloor>x\<rfloor> - 9" by simp
  finally have "\<lfloor>x / 10\<rfloor> < \<lfloor>x\<rfloor>" by simp
  moreover from x have "0 < \<lfloor>x\<rfloor>" by simp
  ultimately show "(x / 10, x) \<in> measure (\<lambda>x. nat \<lfloor>x\<rfloor>)" by simp
qed

function down10 :: "real \<Rightarrow> nat" where
  "down10 x = (if x \<le> 0 \<or> 1 \<le> x then 0 else Suc (down10 (x * 10)))"
  by pat_completeness auto
termination
proof (relation "measure (\<lambda>x. nat \<lceil>1 / x\<rceil>)")
  show "wf (measure (\<lambda>x::real. nat \<lceil>1 / x\<rceil>))" by simp
next
  fix x :: real
  assume "\<not> (x \<le> 0 \<or> 1 \<le> x)"
  then have x: "0 < x" "x < 1" by simp_all
  define y where "y = 1 / x"
  from x have y: "1 < y" by (simp add: y_def)
  have "\<lceil>y / 10\<rceil> < \<lceil>y\<rceil>"
  proof (cases "y \<le> 10")
    case True
    then have "\<lceil>y / 10\<rceil> \<le> 1" by (simp add: ceiling_le_iff)
    moreover from y have "1 < \<lceil>y\<rceil>" by (simp add: less_ceiling_iff)
    ultimately show ?thesis by linarith
  next
    case False
    then have "y / 10 \<le> y - 9" by simp
    then have "\<lceil>y / 10\<rceil> \<le> \<lceil>y - 9\<rceil>" by (rule ceiling_mono)
    also have "\<lceil>y - 9\<rceil> = \<lceil>y\<rceil> - 9" by simp
    finally show ?thesis by simp
  qed
  then have lt: "\<lceil>1 / (x * 10)\<rceil> < \<lceil>1 / x\<rceil>"
    unfolding y_def by (simp only: divide_divide_eq_left)
  from y have "0 < \<lceil>y\<rceil>" by (simp add: less_ceiling_iff)
  then have pos: "0 < \<lceil>1 / x\<rceil>" unfolding y_def .
  from lt pos have "nat \<lceil>1 / (x * 10)\<rceil> < nat \<lceil>1 / x\<rceil>"
    by (simp only: nat_mono_iff)
  then show "(x * 10, x) \<in> measure (\<lambda>x. nat \<lceil>1 / x\<rceil>)"
    by (simp only: in_measure)
qed

declare up10.simps [simp del] down10.simps [simp del]

definition decimal_exponent :: "real \<Rightarrow> int" where
  "decimal_exponent x = (if 1 \<le> x then int (up10 x) else - int (down10 x))"

definition strip_zeros :: "string \<Rightarrow> string" where
  "strip_zeros s = rev (dropWhile (\<lambda>c. c = CHR ''0'') (rev s))"

definition with_point :: "string \<Rightarrow> string \<Rightarrow> string" where
  "with_point i f = (if f = [] then i else i @ ''.'' @ f)"

definition exponent_text :: "int \<Rightarrow> string" where
  "exponent_text X =
     ''e'' @ (if X < 0 then ''-'' else ''+'')
       @ (let d = digits10 (nat \<bar>X\<bar>) in if length d < 2 then ''0'' @ d else d)"

definition fmt_g :: "nat \<Rightarrow> double \<Rightarrow> string" where
  "fmt_g P x =
     (if x = 0 then ''0''
      else
        let a = \<bar>x\<bar>;
            X0 = decimal_exponent a;
            m0 = round_half_even (scale10 a (int P - 1 - X0));
            (m, X) = (if m0 = 10 ^ P then (10 ^ (P - 1), X0 + 1) else (m0, X0));
            ds = digits10 (nat m);
            body = (if - 4 \<le> X \<and> X < int P
                    then (if 0 \<le> X
                          then with_point (take (nat X + 1) ds) (strip_zeros (drop (nat X + 1) ds))
                          else with_point ''0'' (strip_zeros (replicate (nat (- X - 1)) (CHR ''0'') @ ds)))
                    else with_point (take 1 ds) (strip_zeros (drop 1 ds)) @ exponent_text X)
        in (if x < 0 then ''-'' else []) @ body)"


definition ostream_double :: "double \<Rightarrow> string" where
  "ostream_double x = fmt_g 6 x"
section \<open>The authenticated request builder\<close>

definition checkResponse :: "json \<Rightarrow> world \<Rightarrow> json \<times> world" where
  "checkResponse jroot w =
     (case json_object_get (Some jroot) ''message'' of
        None \<Rightarrow> (jroot, w)
      | Some msg \<Rightarrow>
          (jroot, w\<lparr>logFile :=
             put [[CHR 0x0A]]
               (put_cstr (json_string_value (Some msg))
                  (put [''<Bitfinex> Error with response: ''] (logFile w)))\<rparr>))"

text \<open>
  The nonce: \<^verbatim>\<open>(tv.tv_sec * 1000.0) + (tv.tv_usec * 0.001) + 0.5\<close> converted to
  \<^verbatim>\<open>unsigned long long\<close> (truncation; the conversion of a value outside the range of the
  type is undefined in C++, the model wraps).
\<close>

definition nonce_of :: "timeval \<Rightarrow> 64 word" where
  "nonce_of tv = word_of_int \<lfloor>real_of_int (tv_sec tv) * 1000.0 + real_of_int (tv_usec tv) * 0.001 + 0.5\<rfloor>"

definition authPayload :: "string \<Rightarrow> 64 word \<Rightarrow> string \<Rightarrow> string" where
  \<open>authPayload request nonce options =
     (let payload = ''{"request":"'' @ request @ ''","nonce":"'' @ to_string_ull nonce
      in if options = [] then payload @ ''"}'' else payload @ ''", '' @ options @ ''}'')\<close>

definition authRequest :: "Parameters \<Rightarrow> string \<Rightarrow> string \<Rightarrow> world \<Rightarrow> (error + json) \<times> world" where
  "authRequest params request options w =
     (let (tv, w1) = gettimeofday w;
          nonce = nonce_of tv;
          payload = base64_encode (authPayload request nonce options);
          digest = hmac_sha384 w1 (bitfinexSecret params) payload;
          hs = [''X-BFX-APIKEY:'' @ bitfinexApi params,
                ''X-BFX-SIGNATURE:'' @ hex_str digest,
                ''X-BFX-PAYLOAD:'' @ payload];
          (r, w2) = postRequest request hs w1
      in case r of
           Inl e \<Rightarrow> (Inl e, w2)
         | Inr jroot \<Rightarrow> (let (checked, w3) = checkResponse jroot w2 in (Inr checked, w3)))"

section \<open>Quote\<close>



section \<open>Balance\<close>

text \<open>
  The loop \<^verbatim>\<open>for (size_t i = json_array_size(root); i--;)\<close>: the argument is the value
  of \<open>i\<close> before the test; the body runs with \<open>i - 1\<close>.  The result is the value of
  \<^verbatim>\<open>availability\<close> (initially 0.0) or the exception of \<^verbatim>\<open>std::stod\<close>.
\<close>

fun getAvail_loop :: "json \<Rightarrow> string \<Rightarrow> nat \<Rightarrow> ostream \<Rightarrow> (error + double) \<times> ostream" where
  "getAvail_loop jroot currency 0 lg = (Inr 0.0, lg)"
| "getAvail_loop jroot currency (Suc i) lg =
     (case json_unpack_sss (json_array_get (Some jroot) i) ''type'' ''currency'' ''amount'' of
        Inl err_text \<Rightarrow>
          getAvail_loop jroot currency i
            (put [''<Bitfinex> Error with JSON: '', err_text, [CHR 0x0A]] lg)
      | Inr (each_type, each_currency, each_amount) \<Rightarrow>
          if each_type = ''trading'' \<and> each_currency = currency
          then (stod each_amount, lg)
          else getAvail_loop jroot currency i lg)"

definition getAvail :: "Parameters \<Rightarrow> string \<Rightarrow> world \<Rightarrow> (error + double) \<times> world" where
  "getAvail params currency w =
     (let (r, w') = authRequest params ''/v1/balances'' [] w
      in case r of
           Inl e \<Rightarrow> (Inl e, w')
         | Inr jroot \<Rightarrow>
             (let (availability, lg) = getAvail_loop jroot currency (json_array_size (Some jroot)) (logFile w')
              in (availability, w'\<lparr>logFile := lg\<rparr>)))"

section \<open>Order placement\<close>

text \<open>The text \<open>sendOrder\<close> streams into \<^verbatim>\<open>oss\<close>: the options of the order.\<close>

definition order_options :: "string \<Rightarrow> double \<Rightarrow> double \<Rightarrow> string" where
  \<open>order_options direction quantity price =
     ''"symbol":"btcusd", "amount":"'' @ ostream_double quantity
       @ ''", "price":"'' @ ostream_double price
       @ ''", "exchange":"bitfinex", "side":"'' @ direction @ ''", "type":"limit"''\<close>

definition sendOrder :: "Parameters \<Rightarrow> string \<Rightarrow> double \<Rightarrow> double \<Rightarrow> world \<Rightarrow> (error + string) \<times> world" where
  \<open>sendOrder params direction quantity price w =
     (let w1 = w\<lparr>logFile :=
                 put [''<Bitfinex> Trying to send a "'', direction, ''" limit order: '',
                      ostream_double quantity, ''@$'', ostream_double price, ''...'', [CHR 0x0A]] (logFile w)\<rparr>;
          options = order_options direction quantity price;
          (r, w2) = authRequest params ''/v1/order/new'' options w1
      in case r of
           Inl e \<Rightarrow> (Inl e, w2)
         | Inr jroot \<Rightarrow>
             (let orderId = to_string_ll (json_integer_value (json_object_get (Some jroot) ''order_id''))
              in (Inr orderId,
                  w2\<lparr>logFile :=
                       put [''<Bitfinex> Done (order ID: '', orderId, [CHR '')'', CHR 0x0A],
                            [CHR 0x0A]] (logFile w2)\<rparr>)))\<close>

definition sendLongOrder :: "Parameters \<Rightarrow> string \<Rightarrow> double \<Rightarrow> double \<Rightarrow> world \<Rightarrow> (error + string) \<times> world" where
  "sendLongOrder params direction quantity price w = sendOrder params direction quantity price w"

definition sendShortOrder :: "Parameters \<Rightarrow> string \<Rightarrow> double \<Rightarrow> double \<Rightarrow> world \<Rightarrow> (error + string) \<times> world" where
  "sendShortOrder params direction quantity price w = sendOrder params direction quantity price w"

section \<open>Order status\<close>

definition isOrderComplete :: "Parameters \<Rightarrow> string \<Rightarrow> world \<Rightarrow> (error + bool) \<times> world" where
  \<open>isOrderComplete params orderId w =
     (if orderId = ''0'' then (Inr True, w)
      else
        let options = ''"order_id":'' @ orderId;
            (r, w') = authRequest params ''/v1/order/status'' options w
        in case r of
             Inl e \<Rightarrow> (Inl e, w')
           | Inr jroot \<Rightarrow> (Inr (json_is_false (json_object_get (Some jroot) ''is_live'')), w'))\<close>

section \<open>Active position\<close>

definition getActivePos :: "Parameters \<Rightarrow> world \<Rightarrow> (error + double) \<times> world" where
  "getActivePos params w =
     (let (r, w') = authRequest params ''/v1/positions'' [] w
      in case r of
           Inl e \<Rightarrow> (Inl e, w')
         | Inr jroot \<Rightarrow>
             if json_array_size (Some jroot) = 0
             then (Inr 0.0, w'\<lparr>logFile :=
                     put [''<Bitfinex> WARNING: BTC position not available, return 0.0'', [CHR 0x0A]]
                       (logFile w')\<rparr>)
             else (atof (json_string_value (json_object_get (json_array_get (Some jroot) 0) ''amount'')), w'))"

section \<open>Depth-weighted limit price\<close>




section \<open>Vocabulary for the balance scan\<close>

text \<open>
  What \<open>getAvail\<close> does with one element of the balance list, named for the statements
  below: the unpacking of the three members; an element is \<open>malformed\<close> when the unpacking
  fails, and \<open>matching\<close> when it succeeds with type "trading" and the requested currency;
  \<open>amount_text\<close> is the text of its amount, and \<open>decode_diagnostic\<close> the items the loop
  writes to the log for it (none for a well-formed element).
\<close>

definition balances_unpack :: "json option \<Rightarrow> string + (string \<times> string \<times> string)" where
  "balances_unpack e = json_unpack_sss e ''type'' ''currency'' ''amount''"

definition malformed :: "json option \<Rightarrow> bool" where
  "malformed e \<longleftrightarrow> isl (balances_unpack e)"

definition matching :: "string \<Rightarrow> json option \<Rightarrow> bool" where
  "matching currency e =
     (case balances_unpack e of
        Inl t \<Rightarrow> False
      | Inr (each_type, each_currency, each_amount) \<Rightarrow> each_type = ''trading'' \<and> each_currency = currency)"

definition amount_text :: "json option \<Rightarrow> string" where
  "amount_text e =
     (case balances_unpack e of
        Inl t \<Rightarrow> []
      | Inr (each_type, each_currency, each_amount) \<Rightarrow> each_amount)"

definition decode_diagnostic :: "json option \<Rightarrow> string list" where
  "decode_diagnostic e =
     (case balances_unpack e of
        Inl t \<Rightarrow> [''<Bitfinex> Error with JSON: '', t, [CHR 0x0A]]
      | Inr v \<Rightarrow> [])"

section \<open>Vocabulary for the order book\<close>








section \<open>Vocabulary for successive signed requests\<close>


definition signed_request :: "Parameters \<Rightarrow> world \<Rightarrow> string \<Rightarrow> 64 word \<Rightarrow> string \<Rightarrow> http_request" where
  "signed_request params w request nonce options =
     \<lparr>verb = POST, path = request, headers =
        [''X-BFX-APIKEY:'' @ bitfinexApi params,
         ''X-BFX-SIGNATURE:'' @ hex_str (hmac_sha384 w (bitfinexSecret params)
            (base64_encode (authPayload request nonce options))),
         ''X-BFX-PAYLOAD:'' @ base64_encode (authPayload request nonce options)]\<rparr>"

definition micros :: "timeval \<Rightarrow> int" where
  "micros tv = tv_sec tv * 1000000 + tv_usec tv"


section \<open>Vocabulary for the signed payload\<close>

text \<open>
  Base64 decoding, the inverse of \<open>base64_encode\<close>: what the exchange does with the
  payload header.  \<open>payload_of\<close> is the text of that header after its name.
\<close>


definition b64_index :: "char \<Rightarrow> nat" where
  "b64_index c = length (takeWhile (\<lambda>x. x \<noteq> c) b64_alphabet)"

fun base64_decode :: "string \<Rightarrow> string" where
  "base64_decode (a # b # c # d # rest) =
     (let p = b64_index a; q = b64_index b; r = b64_index c; s = b64_index d
      in if c = CHR ''='' then [char_of (p * 4 + q div 16)]
         else if d = CHR ''='' then [char_of (p * 4 + q div 16), char_of ((q mod 16) * 16 + r div 4)]
         else char_of (p * 4 + q div 16) # char_of ((q mod 16) * 16 + r div 4)
                # char_of ((r mod 4) * 64 + s) # base64_decode rest)"
| "base64_decode _ = []"


definition payload_of :: "http_request \<Rightarrow> string" where
  "payload_of rq = drop (length ''X-BFX-PAYLOAD:'') (headers rq ! 2)"

text \<open>
  JSON texts and the documents they denote, after RFC 8259: \<open>value_text t v\<close> says that
  \<open>t\<close> is a JSON text of the value \<open>v\<close>, \<open>members_text t ms\<close> that \<open>t\<close> is a non-empty
  comma-separated list of object members \<open>ms\<close>, in the order of the text.  White space is
  allowed where the grammar allows it.  The relation covers strings of ASCII characters
  with the two-character escapes, integers of 64 bits, and numbers with a fraction or an
  exponent; every text it accepts is valid JSON.
\<close>


definition ws :: "string \<Rightarrow> bool" where
  "ws s = list_all (\<lambda>c. c \<in> set [CHR '' '', CHR 0x09, CHR 0x0A, CHR 0x0D]) s"

definition plain_char :: "char \<Rightarrow> bool" where
  "plain_char c \<longleftrightarrow> 32 \<le> (of_char c :: nat) \<and> (of_char c :: nat) < 128 \<and> c \<noteq> CHR 0x22 \<and> c \<noteq> CHR 0x5C"

definition escapes :: "(char \<times> char) list" where
  "escapes = [(CHR 0x22, CHR 0x22), (CHR 0x5C, CHR 0x5C), (CHR ''/'', CHR ''/''), (CHR ''b'', CHR 0x08),
              (CHR ''f'', CHR 0x0C), (CHR ''n'', CHR 0x0A), (CHR ''r'', CHR 0x0D), (CHR ''t'', CHR 0x09)]"

inductive string_body :: "string \<Rightarrow> string \<Rightarrow> bool" where
  body_Nil: "string_body [] []"
| body_plain: "plain_char c \<Longrightarrow> string_body t s \<Longrightarrow> string_body (c # t) (c # s)"
| body_escape: "map_of escapes e = Some c \<Longrightarrow> string_body t s \<Longrightarrow> string_body (CHR 0x5C # e # t) (c # s)"

definition int_text :: "string \<Rightarrow> bool" where
  "int_text ds \<longleftrightarrow> ds \<noteq> [] \<and> list_all isdigit ds \<and> (ds = ''0'' \<or> hd ds \<noteq> CHR ''0'')"

definition frac_text :: "string \<Rightarrow> bool" where
  "frac_text f \<longleftrightarrow> f = [] \<or> (hd f = CHR ''.'' \<and> tl f \<noteq> [] \<and> list_all isdigit (tl f))"

definition exp_text :: "string \<Rightarrow> bool" where
  "exp_text x \<longleftrightarrow> x = [] \<or>
     ((hd x = CHR ''e'' \<or> hd x = CHR ''E'') \<and>
      (let ds = snd (strip_sign (tl x)) in ds \<noteq> [] \<and> list_all isdigit ds))"

inductive number_text :: "string \<Rightarrow> json \<Rightarrow> bool" where
  n_int: "int_text ds \<Longrightarrow> decimal ds < 2 ^ 63 \<Longrightarrow> number_text ds (JInteger (of_nat (decimal ds)))"
| n_neg: "int_text ds \<Longrightarrow> decimal ds \<le> 2 ^ 63 \<Longrightarrow>
          number_text (CHR ''-'' # ds) (JInteger (- of_nat (decimal ds)))"
| n_real: "int_text ds \<Longrightarrow> frac_text f \<Longrightarrow> exp_text x \<Longrightarrow> f @ x \<noteq> [] \<Longrightarrow>
           sign = [] \<or> sign = ''-'' \<Longrightarrow> strtod (sign @ ds @ f @ x) = Some v \<Longrightarrow>
           number_text (sign @ ds @ f @ x) (JReal v)"

inductive value_text :: "string \<Rightarrow> json \<Rightarrow> bool"
  and members_text :: "string \<Rightarrow> (string \<times> json) list \<Rightarrow> bool"
  and elements_text :: "string \<Rightarrow> json list \<Rightarrow> bool" where
  v_string: "string_body t s \<Longrightarrow> value_text (CHR 0x22 # t @ [CHR 0x22]) (JString s)"
| v_number: "number_text t v \<Longrightarrow> value_text t v"
| v_true: "value_text ''true'' JTrue"
| v_false: "value_text ''false'' JFalse"
| v_null: "value_text ''null'' JNull"
| v_array_empty: "ws a \<Longrightarrow> value_text (CHR ''['' # a @ '']'') (JArray [])"
| v_array: "elements_text t vs \<Longrightarrow> value_text (CHR ''['' # t @ '']'') (JArray vs)"
| v_object_empty: "ws a \<Longrightarrow> value_text (CHR ''{'' # a @ ''}'') (JObject [])"
| v_object: "members_text t ms \<Longrightarrow> value_text (CHR ''{'' # t @ ''}'') (JObject ms)"
| v_ws: "ws a \<Longrightarrow> ws b \<Longrightarrow> value_text t v \<Longrightarrow> value_text (a @ t @ b) v"
| m_last: "ws a \<Longrightarrow> ws b \<Longrightarrow> string_body k key \<Longrightarrow> value_text t v \<Longrightarrow>
           members_text (a @ CHR 0x22 # k @ CHR 0x22 # b @ CHR '':'' # t) [(key, v)]"
| m_more: "ws a \<Longrightarrow> ws b \<Longrightarrow> string_body k key \<Longrightarrow> value_text t v \<Longrightarrow> members_text r ms \<Longrightarrow>
           members_text (a @ CHR 0x22 # k @ CHR 0x22 # b @ CHR '':'' # t @ CHR '','' # r) ((key, v) # ms)"
| e_last: "value_text t v \<Longrightarrow> elements_text t [v]"
| e_more: "value_text t v \<Longrightarrow> elements_text r vs \<Longrightarrow> elements_text (t @ CHR '','' # r) (v # vs)"


section \<open>Vocabulary for rendered numbers\<close>

text \<open>
  The digits of the mantissa of a rendered number (what precedes the exponent, without
  sign and point), and its significant digits: the mantissa without its leading zeros.
\<close>

definition mantissa_digits :: "string \<Rightarrow> string" where
  "mantissa_digits s = filter isdigit (takeWhile (\<lambda>c. c \<noteq> CHR ''e'') s)"

definition significant_digits :: "string \<Rightarrow> string" where
  "significant_digits s = dropWhile (\<lambda>c. c = CHR ''0'') (mantissa_digits s)"

section \<open>Example worlds\<close>

text \<open>
  A world whose clock starts at 1700000000 s and advances one second per reading, with
  nothing sent and an empty log; the exchange is the argument.
\<close>

definition world0 :: "(http_request list \<Rightarrow> http_request \<Rightarrow> error + json) \<Rightarrow> world" where
  "world0 ex = \<lparr>clock = (\<lambda>k. \<lparr>tv_sec = 1700000000 + int k, tv_usec = 0\<rparr>), reads = 0,
     exchange = ex, sent = [],
     logFile = \<lparr>items = [], badbit = False\<rparr>,
     hmac_sha384 = (\<lambda>key msg. replicate 48 (CHR 0x00))\<rparr>"

text \<open>An exchange that answers every request with the same document.\<close>

definition always :: "json \<Rightarrow> http_request list \<Rightarrow> http_request \<Rightarrow> error + json" where
  "always doc hist rq = Inr doc"

definition params0 :: Parameters where
  "params0 = \<lparr>bitfinexApi = ''key'', bitfinexSecret = ''secret'', orderBookFactor = 1.0, cacert = []\<rparr>"

text \<open>
  A balance list with no trading entry in "btc": a deposit entry, a trading entry in
  another currency, an entry without its type, and an element that is no object.
\<close>

definition balances0 :: json where
  "balances0 = JArray
     [JObject [(''type'', JString ''deposit''), (''currency'', JString ''btc''),
               (''amount'', JString ''1.5''), (''available'', JString ''1.5'')],
      JObject [(''currency'', JString ''btc''), (''amount'', JString ''2.0'')],
      JObject [(''type'', JString ''trading''), (''currency'', JString ''usd''),
               (''amount'', JString ''3.0''), (''available'', JString ''3.0'')],
      JInteger 7]"

text \<open>A balance list with two trading entries in "btc", and one whose amount is no number.\<close>

definition balances1 :: json where
  "balances1 = JArray
     [JObject [(''type'', JString ''trading''), (''currency'', JString ''btc''), (''amount'', JString ''1.5'')],
      JObject [(''type'', JString ''trading''), (''currency'', JString ''btc''), (''amount'', JString ''2.5'')],
      JObject [(''type'', JString ''deposit''), (''currency'', JString ''btc''), (''amount'', JString ''9'')]]"







section \<open>Properties of the order-status query\<close>

lemma json_is_false_iff: "json_is_false j \<longleftrightarrow> j = Some JFalse"
  by (cases j rule: json_is_false.cases) simp_all

text \<open>
  The document \<open>authRequest\<close> returns is the exchange's answer to the signed POST, whatever
  the validator logged.
\<close>

lemma authRequest_fst:
  "fst (authRequest params request options w) =
   exchange w (sent w) \<lparr>verb = POST, path = request, headers =
      [''X-BFX-APIKEY:'' @ bitfinexApi params,
       ''X-BFX-SIGNATURE:'' @ hex_str (hmac_sha384 w (bitfinexSecret params)
          (base64_encode (authPayload request (nonce_of (clock w (reads w))) options))),
       ''X-BFX-PAYLOAD:'' @ base64_encode (authPayload request (nonce_of (clock w (reads w))) options)]\<rparr>"
  by (simp add: authRequest_def gettimeofday_def postRequest_def transport_def checkResponse_def
      Let_def split_beta split: sum.splits option.splits)

lemma authRequest_sent:
  "length (sent (snd (authRequest params request options w))) = Suc (length (sent w))"
  by (simp add: authRequest_def gettimeofday_def postRequest_def transport_def checkResponse_def
      Let_def split_beta split: sum.splits option.splits)

text \<open>
  C5.  For every world (exchange state, clock, log) and every \<open>Parameters\<close> value,
  \<open>isOrderComplete\<close> called with the sentinel identifier "0" returns true and leaves the
  world as it was: in particular the list of requests sent is unchanged, so no network
  request was made.
\<close>

theorem isOrderComplete_sentinel:
  \<open>isOrderComplete params ''0'' w = (Inr True, w) \<and>
   sent (snd (isOrderComplete params ''0'' w)) = sent w\<close>
  by (simp add: isOrderComplete_def)

text \<open>
  C6.  For every identifier other than "0", \<open>isOrderComplete\<close> returns the answer of
  the signed status request mapped as follows: a transport failure is passed on, and a
  document yields true exactly when its member "is_live" is present and is the JSON value
  false; a missing member or any other value yields false.
\<close>

theorem isOrderComplete_is_live:
  \<open>orderId \<noteq> ''0'' \<Longrightarrow>
   fst (isOrderComplete params orderId w) =
     map_sum id (\<lambda>jroot. json_object_get (Some jroot) ''is_live'' = Some JFalse)
       (fst (authRequest params ''/v1/order/status'' (''"order_id":'' @ orderId) w))\<close>
  by (simp add: isOrderComplete_def Let_def split_beta json_is_false_iff split: sum.splits)

theorem isOrderComplete_is_live_witness:
  \<open>''42'' \<noteq> ''0''
   \<and> fst (isOrderComplete params0 ''42'' (world0 (always (JObject [(''id'', JInteger 42), (''is_live'', JFalse)])))) = Inr True
   \<and> fst (isOrderComplete params0 ''42'' (world0 (always (JObject [(''id'', JInteger 42), (''is_live'', JTrue)])))) = Inr False
   \<and> fst (isOrderComplete params0 ''42'' (world0 (always (JObject [(''id'', JInteger 42)])))) = Inr False
   \<and> fst (isOrderComplete params0 ''42'' (world0 (always (JObject [(''is_live'', JString ''false'')])))) = Inr False\<close>
  using isOrderComplete_is_live [of "''42''" params0 "world0 (always (JObject [(''id'', JInteger 42), (''is_live'', JFalse)]))"]
        isOrderComplete_is_live [of "''42''" params0 "world0 (always (JObject [(''id'', JInteger 42), (''is_live'', JTrue)]))"]
        isOrderComplete_is_live [of "''42''" params0 "world0 (always (JObject [(''id'', JInteger 42)]))"]
        isOrderComplete_is_live [of "''42''" params0 "world0 (always (JObject [(''is_live'', JString ''false'')]))"]
  by (simp add: authRequest_fst world0_def always_def)

section \<open>Properties of the text conversions\<close>

lemma not_range_error:
  assumes "v = 0 \<or> (1 / 2 ^ 20 \<le> \<bar>v\<bar> \<and> \<bar>v\<bar> \<le> 2 ^ 40)"
  shows "\<not> range_error v"
proof (cases "v = 0")
  case True
  then show ?thesis by (simp add: range_error_def)
next
  case False
  with assms have lo: "1 / 2 ^ 20 \<le> \<bar>v\<bar>" and hi: "\<bar>v\<bar> \<le> 2 ^ 40" by simp_all
  have "(2::real) ^ 20 \<le> 2 ^ 1022" by (rule power_increasing) simp_all
  then have "(1::real) / 2 ^ 1022 \<le> 1 / 2 ^ 20" by (simp add: field_simps)
  with lo have l: "\<not> \<bar>v\<bar> < 1 / 2 ^ 1022" by linarith
  have a: "(2::real) ^ 40 < 2 ^ 970" by (rule power_strict_increasing) simp_all
  have "(2::real) ^ 1024 = 2 ^ 54 * 2 ^ 970" by (simp add: power_add [symmetric])
  then have "(2::real) ^ 1024 - 2 ^ 970 = (2 ^ 54 - 1) * 2 ^ 970" by (simp add: algebra_simps)
  moreover have "(1::real) * 2 ^ 970 \<le> (2 ^ 54 - 1) * 2 ^ 970"
    by (rule mult_right_mono) simp_all
  ultimately have "(2::real) ^ 970 \<le> 2 ^ 1024 - 2 ^ 970" by simp
  with a hi have h: "\<not> 2 ^ 1024 - 2 ^ 970 \<le> \<bar>v\<bar>" by linarith
  from l h show ?thesis unfolding range_error_def by blast
qed

lemmas strtod_eval = strtod_def isspace_def isdigit_def decimal_def digit_value_def scale10_def

lemmas stod_eval = stod_def strtod_eval not_range_error


section \<open>Properties of the balance lookup\<close>

lemma put_put: "put ys (put xs lg) = put (xs @ ys) lg"
  by (simp add: put_def)

lemma put_Nil: "put [] lg = lg"
  by (simp add: put_def)

lemma getAvail_loop_no_match:
  "(\<forall>i<n. \<not> matching currency (json_array_get (Some jroot) i)) \<Longrightarrow>
   fst (getAvail_loop jroot currency n lg) = Inr 0"
proof (induction n arbitrary: lg)
  case 0
  show ?case by simp
next
  case (Suc n)
  from Suc.prems have here: "\<not> matching currency (json_array_get (Some jroot) n)"
    and below: "\<forall>i<n. \<not> matching currency (json_array_get (Some jroot) i)" by simp_all
  from here Suc.IH [OF below] show ?case
    by (auto simp: matching_def balances_unpack_def split: sum.splits)
qed

lemma getAvail_loop_log:
  "(\<forall>i<n. \<not> matching currency (json_array_get (Some jroot) i)) \<Longrightarrow>
   snd (getAvail_loop jroot currency n lg) =
     put (concat (map (\<lambda>i. decode_diagnostic (json_array_get (Some jroot) i)) (rev [0..<n]))) lg"
proof (induction n arbitrary: lg)
  case 0
  show ?case by (simp add: put_Nil)
next
  case (Suc n)
  from Suc.prems have here: "\<not> matching currency (json_array_get (Some jroot) n)"
    and below: "\<forall>i<n. \<not> matching currency (json_array_get (Some jroot) i)" by simp_all
  from here Suc.IH [OF below] show ?case
    by (auto simp: matching_def decode_diagnostic_def balances_unpack_def put_put put_Nil
        split: sum.splits)
qed

lemma getAvail_loop_last_match:
  "k < n \<Longrightarrow> matching currency (json_array_get (Some jroot) k) \<Longrightarrow>
   (\<forall>j. k < j \<and> j < n \<longrightarrow> \<not> matching currency (json_array_get (Some jroot) j)) \<Longrightarrow>
   fst (getAvail_loop jroot currency n lg) = stod (amount_text (json_array_get (Some jroot) k))"
proof (induction n arbitrary: lg)
  case 0
  then show ?case by simp
next
  case (Suc n)
  show ?case
  proof (cases "k = n")
    case True
    with Suc.prems(2) show ?thesis
      by (auto simp: matching_def amount_text_def balances_unpack_def split: sum.splits)
  next
    case False
    with Suc.prems have kn: "k < n" and here: "\<not> matching currency (json_array_get (Some jroot) n)"
      and rest: "\<forall>j. k < j \<and> j < n \<longrightarrow> \<not> matching currency (json_array_get (Some jroot) j)"
      by auto
    from here Suc.IH [OF kn Suc.prems(2) rest] show ?thesis
      by (auto simp: matching_def balances_unpack_def split: sum.splits)
  qed
qed

lemma json_array_get_elements:
  "i < json_array_size j \<Longrightarrow> json_array_get j i = Some (json_array_elements j ! i)"
  by (cases j rule: json_array_elements.cases) simp_all

lemma json_array_size_elements: "json_array_size j = length (json_array_elements j)"
  by (cases j rule: json_array_elements.cases) simp_all

text \<open>The scan below index \<open>n\<close> does not depend on the elements from \<open>n\<close> on.\<close>

lemma getAvail_loop_prefix:
  "n \<le> length xs \<Longrightarrow>
   getAvail_loop (JArray (xs @ ys)) currency n lg = getAvail_loop (JArray xs) currency n lg"
  by (induction n arbitrary: lg) (simp_all add: nth_append split: sum.splits)

text \<open>Removing the malformed elements from the array does not change the result.\<close>

lemma getAvail_loop_skip:
  "fst (getAvail_loop (JArray xs) currency (length xs) lg) =
   fst (getAvail_loop (JArray (filter (\<lambda>e. \<not> malformed (Some e)) xs)) currency
          (length (filter (\<lambda>e. \<not> malformed (Some e)) xs)) lg')"
proof (induction xs arbitrary: lg lg' rule: rev_induct)
  case Nil
  show ?case by simp
next
  case (snoc x xs)
  have pre: "\<And>l zs. getAvail_loop (JArray (zs @ [x])) currency (length zs) l
                 = getAvail_loop (JArray zs) currency (length zs) l"
    by (rule getAvail_loop_prefix) simp
  show ?case
  proof (cases "malformed (Some x)")
    case True
    then show ?thesis using snoc.IH
      by (auto simp: pre malformed_def balances_unpack_def split: sum.splits)
  next
    case False
    then show ?thesis using snoc.IH
      by (auto simp: pre malformed_def balances_unpack_def split: sum.splits)
  qed
qed

lemma getAvail_unfold:
  "getAvail params currency w =
     (case fst (authRequest params ''/v1/balances'' [] w) of
        Inl e \<Rightarrow> (Inl e, snd (authRequest params ''/v1/balances'' [] w))
      | Inr jroot \<Rightarrow>
          (fst (getAvail_loop jroot currency (json_array_size (Some jroot))
                  (logFile (snd (authRequest params ''/v1/balances'' [] w)))),
           (snd (authRequest params ''/v1/balances'' [] w))
             \<lparr>logFile := snd (getAvail_loop jroot currency (json_array_size (Some jroot))
                  (logFile (snd (authRequest params ''/v1/balances'' [] w))))\<rparr>))"
  by (simp add: getAvail_def Let_def split_beta split: sum.splits)

text \<open>What the validator leaves in the log when the answer is no object, or has no message.\<close>

lemma authRequest_logFile:
  "fst (authRequest params request options w) = Inr jroot \<Longrightarrow>
   json_object_get (Some jroot) ''message'' = None \<Longrightarrow>
   logFile (snd (authRequest params request options w)) = logFile w"
  by (auto simp: authRequest_def gettimeofday_def postRequest_def transport_def checkResponse_def
      Let_def split_beta split: sum.splits option.splits)

text \<open>
  C7.  Let the signed balance request return the document \<open>jroot\<close>.  If no element of the
  list is a well-formed entry with type "trading" and the requested currency, \<open>getAvail\<close>
  returns 0.0, and the log receives one decode diagnostic for every malformed element (in
  the order of the scan, last element first) and nothing else.  Whatever the list holds,
  the result is the result of the same scan over the list without its malformed elements:
  they are skipped and the scan goes on over the rest.
\<close>

theorem getAvail_no_match:
  assumes resp: "fst (authRequest params ''/v1/balances'' [] w) = Inr jroot"
  shows "((\<forall>e \<in> set (json_array_elements (Some jroot)). \<not> matching currency (Some e)) \<longrightarrow>
            fst (getAvail params currency w) = Inr 0
          \<and> logFile (snd (getAvail params currency w)) =
              put (concat (map (\<lambda>e. decode_diagnostic (Some e)) (rev (json_array_elements (Some jroot)))))
                (logFile (snd (authRequest params ''/v1/balances'' [] w))))
       \<and> fst (getAvail params currency w) =
           fst (getAvail_loop (JArray (filter (\<lambda>e. \<not> malformed (Some e)) (json_array_elements (Some jroot))))
                  currency (length (filter (\<lambda>e. \<not> malformed (Some e)) (json_array_elements (Some jroot)))) lg)"
proof -
  let ?xs = "json_array_elements (Some jroot)"
  let ?n = "json_array_size (Some jroot)"
  let ?lg = "logFile (snd (authRequest params ''/v1/balances'' [] w))"
  have get: "\<And>i. i < ?n \<Longrightarrow> json_array_get (Some jroot) i = Some (?xs ! i)"
    by (rule json_array_get_elements)
  have n: "?n = length ?xs" by (rule json_array_size_elements)
  have res: "fst (getAvail params currency w) = fst (getAvail_loop jroot currency ?n ?lg)"
    and lg: "logFile (snd (getAvail params currency w)) = snd (getAvail_loop jroot currency ?n ?lg)"
    using resp by (simp_all add: getAvail_unfold)
  have A: "fst (getAvail params currency w) = Inr 0
          \<and> logFile (snd (getAvail params currency w)) =
              put (concat (map (\<lambda>e. decode_diagnostic (Some e)) (rev ?xs))) ?lg"
    if nm: "\<forall>e \<in> set ?xs. \<not> matching currency (Some e)"
  proof -
    from nm get n have nm': "\<forall>i<?n. \<not> matching currency (json_array_get (Some jroot) i)"
      by simp
    have "map (\<lambda>i. decode_diagnostic (json_array_get (Some jroot) i)) (rev [0..<?n])
          = map (\<lambda>e. decode_diagnostic (Some e)) (rev ?xs)"
    proof -
      have "map (\<lambda>i. decode_diagnostic (json_array_get (Some jroot) i)) [0..<?n]
            = map (\<lambda>i. decode_diagnostic (Some (?xs ! i))) [0..<length ?xs]"
        using get n by simp
      also have "\<dots> = map (\<lambda>e. decode_diagnostic (Some e)) (map (\<lambda>i. ?xs ! i) [0..<length ?xs])"
        by simp
      also have "\<dots> = map (\<lambda>e. decode_diagnostic (Some e)) ?xs"
        by (simp only: map_nth)
      finally have "rev (map (\<lambda>i. decode_diagnostic (json_array_get (Some jroot) i)) [0..<?n])
            = rev (map (\<lambda>e. decode_diagnostic (Some e)) ?xs)"
        by (rule arg_cong)
      then show ?thesis by (simp only: rev_map)
    qed
    with getAvail_loop_no_match [OF nm'] getAvail_loop_log [OF nm'] res lg show ?thesis
      by simp
  qed
  have B: "fst (getAvail_loop jroot currency ?n ?lg) =
           fst (getAvail_loop (JArray (filter (\<lambda>e. \<not> malformed (Some e)) ?xs))
                  currency (length (filter (\<lambda>e. \<not> malformed (Some e)) ?xs)) lg)"
  proof (cases jroot)
    case (JArray ys)
    then show ?thesis using getAvail_loop_skip [of ys currency ?lg lg] by simp
  qed simp_all
  from A B res show ?thesis by simp
qed

lemmas unpack_eval = balances_unpack_def json_unpack_sss_def unpack_member_def

theorem getAvail_no_match_witness:
  "fst (authRequest params0 ''/v1/balances'' [] (world0 (always balances0))) = Inr balances0
   \<and> list_all (\<lambda>e. \<not> matching ''btc'' (Some e)) (json_array_elements (Some balances0))
   \<and> fst (getAvail params0 ''btc'' (world0 (always balances0))) = Inr 0
   \<and> items (logFile (snd (getAvail params0 ''btc'' (world0 (always balances0))))) =
       [''<Bitfinex> Error with JSON: '', ''Expected object, got integer'', [CHR 0x0A],
        ''<Bitfinex> Error with JSON: '', ''Object item not found: type'', [CHR 0x0A]]"
proof -
  have r: "fst (authRequest params0 ''/v1/balances'' [] (world0 (always balances0))) = Inr balances0"
    by (simp add: authRequest_fst world0_def always_def)
  have l: "logFile (snd (authRequest params0 ''/v1/balances'' [] (world0 (always balances0))))
           = \<lparr>items = [], badbit = False\<rparr>"
    using authRequest_logFile [OF r] by (simp add: balances0_def world0_def)
  have m: "\<forall>e \<in> set (json_array_elements (Some balances0)). \<not> matching ''btc'' (Some e)"
    by (simp add: balances0_def matching_def unpack_eval)
  from getAvail_no_match [OF r, of "''btc''"] m l r show ?thesis
    by (simp add: balances0_def decode_diagnostic_def unpack_eval put_def list_all_iff)
qed

text \<open>
  C9.  Let the signed balance request return the document \<open>jroot\<close>, and let \<open>k\<close> be the
  highest index of its list at which a well-formed entry has type "trading" and the
  requested currency.  Then \<open>getAvail\<close> returns what \<^verbatim>\<open>std::stod\<close> makes of the amount of
  that entry, whatever matching entries stand at lower indices: the scan runs from the
  highest index downward and stops at the first match.
\<close>

theorem getAvail_last_match:
  assumes resp: "fst (authRequest params ''/v1/balances'' [] w) = Inr jroot"
    and k: "k < length (json_array_elements (Some jroot))"
    and match: "matching currency (Some (json_array_elements (Some jroot) ! k))"
    and last: "\<forall>j. k < j \<and> j < length (json_array_elements (Some jroot)) \<longrightarrow>
                  \<not> matching currency (Some (json_array_elements (Some jroot) ! j))"
  shows "fst (getAvail params currency w) =
           stod (amount_text (Some (json_array_elements (Some jroot) ! k)))"
proof -
  let ?xs = "json_array_elements (Some jroot)"
  let ?n = "json_array_size (Some jroot)"
  have get: "\<And>i. i < ?n \<Longrightarrow> json_array_get (Some jroot) i = Some (?xs ! i)"
    by (rule json_array_get_elements)
  have n: "?n = length ?xs" by (rule json_array_size_elements)
  from k n have k': "k < ?n" by simp
  from match get k' have match': "matching currency (json_array_get (Some jroot) k)" by simp
  from last get n
  have last': "\<forall>j. k < j \<and> j < ?n \<longrightarrow> \<not> matching currency (json_array_get (Some jroot) j)"
    by simp
  from getAvail_loop_last_match [OF k' match' last'] resp get k' show ?thesis
    by (simp add: getAvail_unfold)
qed

theorem getAvail_last_match_witness:
  "fst (authRequest params0 ''/v1/balances'' [] (world0 (always balances1))) = Inr balances1
   \<and> (1::nat) < length (json_array_elements (Some balances1))
   \<and> matching ''btc'' (Some (json_array_elements (Some balances1) ! 0))
   \<and> matching ''btc'' (Some (json_array_elements (Some balances1) ! 1))
   \<and> \<not> matching ''btc'' (Some (json_array_elements (Some balances1) ! 2))
   \<and> fst (getAvail params0 ''btc'' (world0 (always balances1))) = Inr 2.5"
proof -
  have r: "fst (authRequest params0 ''/v1/balances'' [] (world0 (always balances1))) = Inr balances1"
    by (simp add: authRequest_fst world0_def always_def)
  have k: "(1::nat) < length (json_array_elements (Some balances1))"
    by (simp add: balances1_def)
  have m0: "matching ''btc'' (Some (json_array_elements (Some balances1) ! 0))"
    by (simp add: balances1_def matching_def unpack_eval)
  have m1: "matching ''btc'' (Some (json_array_elements (Some balances1) ! 1))"
    by (simp add: balances1_def matching_def unpack_eval)
  have m2: "\<not> matching ''btc'' (Some (json_array_elements (Some balances1) ! 2))"
    by (simp add: balances1_def matching_def unpack_eval)
  have last: "\<forall>j. 1 < j \<and> j < length (json_array_elements (Some balances1)) \<longrightarrow>
                \<not> matching ''btc'' (Some (json_array_elements (Some balances1) ! j))"
  proof (intro allI impI)
    fix j :: nat
    assume "1 < j \<and> j < length (json_array_elements (Some balances1))"
    then have "j = 2" by (simp add: balances1_def)
    with m2 show "\<not> matching ''btc'' (Some (json_array_elements (Some balances1) ! j))" by simp
  qed
  have a: "stod (amount_text (Some (json_array_elements (Some balances1) ! 1))) = Inr 2.5"
    by (simp add: balances1_def amount_text_def unpack_eval stod_eval)
  from getAvail_last_match [OF r k m1 last] a r k m0 m1 m2 show ?thesis by simp
qed

section \<open>Properties of the quote and of malformed numbers\<close>






section \<open>Properties of the depth-weighted limit price\<close>





















section \<open>Properties of the nonce\<close>


lemma nonce_floor:
  "\<lfloor>real_of_int (tv_sec tv) * 1000.0 + real_of_int (tv_usec tv) * 0.001 + 0.5\<rfloor>
   = (micros tv + 500) div 1000"
proof -
  have "real_of_int (tv_sec tv) * 1000.0 + real_of_int (tv_usec tv) * 0.001 + 0.5
        = real_of_int (micros tv + 500) / real_of_int 1000"
    by (simp add: micros_def field_simps)
  then show ?thesis by (simp only: floor_divide_of_int_eq)
qed



lemma authRequest_snd:
  "snd (authRequest params request options w) =
     (let w2 = w\<lparr>reads := Suc (reads w),
                 sent := sent w @ [signed_request params w request (nonce_of (clock w (reads w))) options]\<rparr>
      in case exchange w (sent w) (signed_request params w request (nonce_of (clock w (reads w))) options) of
           Inl e \<Rightarrow> w2
         | Inr jroot \<Rightarrow> snd (checkResponse jroot w2))"
  by (simp add: authRequest_def gettimeofday_def postRequest_def transport_def signed_request_def
      Let_def split_beta split: sum.splits)

lemma checkResponse_frame:
  "sent (snd (checkResponse jroot w)) = sent w"
  "reads (snd (checkResponse jroot w)) = reads w"
  "clock (snd (checkResponse jroot w)) = clock w"
  "hmac_sha384 (snd (checkResponse jroot w)) = hmac_sha384 w"
  by (simp_all add: checkResponse_def split: option.splits)

lemma authRequest_frame:
  "sent (snd (authRequest params request options w)) =
     sent w @ [signed_request params w request (nonce_of (clock w (reads w))) options]"
  "reads (snd (authRequest params request options w)) = Suc (reads w)"
  "clock (snd (authRequest params request options w)) = clock w"
  "hmac_sha384 (snd (authRequest params request options w)) = hmac_sha384 w"
  by (simp_all add: authRequest_snd Let_def checkResponse_frame split: sum.splits)




lemma nonce_of_eq: "nonce_of tv = word_of_int ((micros tv + 500) div 1000)"
  by (simp only: nonce_of_def nonce_floor)




section \<open>Properties of the signed payload\<close>

lemma index_nth:
  "distinct xs \<Longrightarrow> n < length xs \<Longrightarrow> length (takeWhile (\<lambda>x. x \<noteq> xs ! n) xs) = n"
proof (induction xs arbitrary: n)
  case Nil
  then show ?case by simp
next
  case (Cons x xs)
  show ?case
  proof (cases n)
    case 0
    then show ?thesis by simp
  next
    case (Suc m)
    with Cons.prems have "xs ! m \<in> set xs" "x \<notin> set xs" by simp_all
    then have "x \<noteq> xs ! m" by blast
    with Cons Suc show ?thesis by simp
  qed
qed

lemma b64_alphabet_distinct: "distinct b64_alphabet"
  by (simp add: b64_alphabet_def)

lemma b64_alphabet_length: "length b64_alphabet = 64"
  by (simp add: b64_alphabet_def)

lemma b64_index_b64: "n < 64 \<Longrightarrow> b64_index (b64 n) = n"
  unfolding b64_index_def b64_def
  by (rule index_nth) (simp_all add: b64_alphabet_distinct b64_alphabet_length)

lemma b64_not_pad: "n < 64 \<Longrightarrow> b64 n \<noteq> CHR ''=''"
proof -
  assume "n < 64"
  then have "b64 n \<in> set b64_alphabet"
    unfolding b64_def by (simp add: b64_alphabet_length)
  moreover have "CHR ''='' \<notin> set b64_alphabet" by (simp add: b64_alphabet_def)
  ultimately show ?thesis by auto
qed

lemma of_char_bound: "(of_char c :: nat) < 256"
proof -
  have "(of_char c :: nat) mod 256 < 256" by (rule mod_less_divisor) simp
  then show ?thesis by simp
qed

lemma sextets:
  fixes x y z :: nat
  assumes "x < 256" "y < 256" "z < 256"
  shows "x div 4 < 64" "(x mod 4) * 16 + y div 16 < 64" "(y mod 16) * 4 + z div 64 < 64" "z mod 64 < 64"
    "(x mod 4) * 16 < 64" "(y mod 16) * 4 < 64"
  using assms by auto

lemma octets:
  fixes x y z :: nat
  assumes "x < 256" "y < 256" "z < 256"
  shows "x div 4 * 4 + ((x mod 4) * 16 + y div 16) div 16 = x"
    "((x mod 4) * 16 + y div 16) mod 16 * 16 + ((y mod 16) * 4 + z div 64) div 4 = y"
    "((y mod 16) * 4 + z div 64) mod 4 * 64 + z mod 64 = z"
    "x div 4 * 4 + ((x mod 4) * 16) div 16 = x"
    "((x mod 4) * 16 + y div 16) mod 16 * 16 + ((y mod 16) * 4) div 4 = y"
  using assms by auto

lemma decode_quad:
  fixes x y z :: nat
  assumes "x < 256" "y < 256" "z < 256"
  shows "base64_decode (b64 (x div 4) # b64 ((x mod 4) * 16 + y div 16)
            # b64 ((y mod 16) * 4 + z div 64) # b64 (z mod 64) # rest)
         = char_of x # char_of y # char_of z # base64_decode rest"
  by (simp only: base64_decode.simps Let_def b64_index_b64 sextets [OF assms] b64_not_pad
      octets [OF assms] if_False)

lemma decode_last2:
  fixes x y :: nat
  assumes "x < 256" "y < 256"
  shows "base64_decode [b64 (x div 4), b64 ((x mod 4) * 16 + y div 16), b64 ((y mod 16) * 4), CHR ''='']
         = [char_of x, char_of y]"
  by (simp only: base64_decode.simps Let_def b64_index_b64 sextets [OF assms assms(2)] b64_not_pad
      octets [OF assms assms(2)] if_False if_True simp_thms)

lemma decode_last1:
  fixes x :: nat
  assumes "x < 256"
  shows "base64_decode [b64 (x div 4), b64 ((x mod 4) * 16), CHR ''='', CHR ''='']
         = [char_of x]"
  by (simp only: base64_decode.simps Let_def b64_index_b64 sextets [OF assms assms assms] b64_not_pad
      octets [OF assms assms assms] if_False if_True simp_thms)

lemma base64_roundtrip: "base64_decode (base64_encode s) = s"
proof (induction s rule: base64_encode.induct)
  case 1
  show ?case by simp
next
  case (2 a)
  show ?case
    by (simp only: base64_encode.simps Let_def decode_last1 [OF of_char_bound] char_of_char)
next
  case (3 a b)
  show ?case
    by (simp only: base64_encode.simps Let_def decode_last2 [OF of_char_bound of_char_bound] char_of_char)
next
  case (4 a b c rest)
  then show ?case
    by (simp only: base64_encode.simps Let_def append_Cons append_Nil
        decode_quad [OF of_char_bound of_char_bound of_char_bound] char_of_char)
qed


lemma string_body_plain: "list_all plain_char s \<Longrightarrow> string_body s s"
  by (induction s) (auto intro: string_body.intros)

lemma ws_append: "ws a \<Longrightarrow> ws b \<Longrightarrow> ws (a @ b)"
  by (simp add: ws_def)

lemma members_text_ws:
  assumes "ws a" and "members_text t ms"
  shows "members_text (a @ t) ms"
  using assms(2)
proof (cases rule: members_text.cases)
  case (m_last a' b k key t' v)
  from ws_append [OF assms(1) m_last(3)] m_last(4-6)
  have "members_text ((a @ a') @ CHR 0x22 # k @ CHR 0x22 # b @ CHR '':'' # t') [(key, v)]"
    by (rule value_text_members_text_elements_text.m_last)
  with m_last(1,2) show ?thesis by simp
next
  case (m_more a' b k key t' v r ms')
  from ws_append [OF assms(1) m_more(3)] m_more(4-7)
  have "members_text ((a @ a') @ CHR 0x22 # k @ CHR 0x22 # b @ CHR '':'' # t' @ CHR '','' # r) ((key, v) # ms')"
    by (rule value_text_members_text_elements_text.m_more)
  with m_more(1,2) show ?thesis by simp
qed

lemma plain_digits10: "list_all plain_char (digits10 n)"
proof (induction n rule: digits10.induct)
  case (1 n)
  have d: "plain_char (digit_char k)" if "k < 10" for k
  proof -
    from that have "k \<in> {0,1,2,3,4,5,6,7,8,9}" by auto
    then show ?thesis by (auto simp: digit_char_def plain_char_def)
  qed
  show ?case
  proof (cases "n < 10")
    case True
    then show ?thesis by (subst digits10.simps) (simp add: d)
  next
    case False
    with 1 have "list_all plain_char (digits10 (n div 10))" by simp
    with False show ?thesis by (subst digits10.simps) (simp add: d)
  qed
qed

text \<open>The text \<open>authRequest\<close> assembles, before it is encoded.\<close>

lemma authPayload_text:
  assumes req: "list_all plain_char request"
    and opts: "if options = [] then supplied = [] else members_text options supplied"
  shows "value_text (authPayload request nonce options)
           (JObject ((''request'', JString request) # (''nonce'', JString (to_string_ull nonce)) # supplied))"
proof -
  let ?n = "to_string_ull nonce"
  have ws0: "ws []" and ws1: "ws '' ''" by (simp_all add: ws_def)
  have kr: "string_body ''request'' ''request''" and kn: "string_body ''nonce'' ''nonce''"
    by (rule string_body_plain, simp add: plain_char_def)+
  have vr: "value_text (CHR 0x22 # request @ [CHR 0x22]) (JString request)"
    by (rule v_string) (rule string_body_plain [OF req])
  have vn: "value_text (CHR 0x22 # ?n @ [CHR 0x22]) (JString ?n)"
    by (rule v_string) (simp add: to_string_ull_def string_body_plain plain_digits10)
  show ?thesis
  proof (cases "options = []")
    case True
    from m_last [OF ws0 ws0 kn vn]
    have "members_text (CHR 0x22 # ''nonce'' @ CHR 0x22 # CHR '':'' # CHR 0x22 # ?n @ [CHR 0x22])
            [(''nonce'', JString ?n)]" by simp
    from m_more [OF ws0 ws0 kr vr this]
    have "value_text (CHR ''{'' # ([] @ CHR 0x22 # ''request'' @ CHR 0x22 # [] @ CHR '':'' # (CHR 0x22 # request @ [CHR 0x22])
             @ CHR '','' # (CHR 0x22 # ''nonce'' @ CHR 0x22 # CHR '':'' # CHR 0x22 # ?n @ [CHR 0x22])) @ ''}'')
            (JObject [(''request'', JString request), (''nonce'', JString ?n)])"
      by (rule v_object)
    with True opts show ?thesis by (simp add: authPayload_def)
  next
    case False
    with opts have "members_text options supplied" by simp
    from members_text_ws [OF ws1 this] have "members_text ('' '' @ options) supplied" .
    from m_more [OF ws0 ws0 kn vn this]
    have "members_text (CHR 0x22 # ''nonce'' @ CHR 0x22 # CHR '':'' # (CHR 0x22 # ?n @ [CHR 0x22]) @ CHR '','' # '' '' @ options)
            ((''nonce'', JString ?n) # supplied)" by simp
    from m_more [OF ws0 ws0 kr vr this]
    have "value_text (CHR ''{'' # ([] @ CHR 0x22 # ''request'' @ CHR 0x22 # [] @ CHR '':'' # (CHR 0x22 # request @ [CHR 0x22])
             @ CHR '','' # (CHR 0x22 # ''nonce'' @ CHR 0x22 # CHR '':'' # (CHR 0x22 # ?n @ [CHR 0x22]) @ CHR '','' # '' '' @ options)) @ ''}'')
            (JObject ((''request'', JString request) # (''nonce'', JString ?n) # supplied))"
      by (rule v_object)
    with False show ?thesis by (simp add: authPayload_def)
  qed
qed


lemma authRequest_last_sent:
  "last (sent (snd (authRequest params request options w))) =
     signed_request params w request (nonce_of (clock w (reads w))) options"
  by (simp add: authRequest_frame)

lemma payload_of_signed_request:
  "payload_of (signed_request params w request nonce options) =
     base64_encode (authPayload request nonce options)"
  by (simp add: payload_of_def signed_request_def)

text \<open>
  C4.  Let the request path consist of ASCII characters that need no escape in a JSON
  string, and let the options be empty or the text of a list of JSON object members
  \<open>supplied\<close>.  Then the payload header of the request that \<open>authRequest\<close> sends, once
  base64-decoded, is a JSON text of the object whose members are "request" (the path),
  "nonce" (the decimal numeral of the nonce, as a string) and the supplied members, in this
  order and with nothing else.
\<close>

theorem authRequest_payload_json:
  assumes "list_all plain_char request"
    and "if options = [] then supplied = [] else members_text options supplied"
  shows "value_text (base64_decode (payload_of (last (sent (snd (authRequest params request options w))))))
           (JObject ((''request'', JString request)
                     # (''nonce'', JString (to_string_ull (nonce_of (clock w (reads w)))))
                     # supplied))"
  using authPayload_text [OF assms]
  by (simp add: authRequest_last_sent payload_of_signed_request base64_roundtrip)

theorem authRequest_payload_json_witness:
  \<open>list_all plain_char ''/v1/order/status''
   \<and> members_text ''"order_id":448364249'' [(''order_id'', JInteger 448364249)]
   \<and> base64_decode (payload_of (last (sent (snd (authRequest params0 ''/v1/order/status'' ''"order_id":448364249''
          (world0 (always (JObject []))))))))
       = ''{"request":"/v1/order/status","nonce":"1700000000000", "order_id":448364249}''
   \<and> value_text ''{"request":"/v1/order/status","nonce":"1700000000000", "order_id":448364249}''
         (JObject [(''request'', JString ''/v1/order/status''), (''nonce'', JString ''1700000000000''),
                   (''order_id'', JInteger 448364249)])
   \<and> value_text (base64_decode (payload_of (last (sent (snd (authRequest params0 ''/v1/balances'' []
          (world0 (always (JArray []))))))))) 
         (JObject [(''request'', JString ''/v1/balances''), (''nonce'', JString ''1700000000000'')])\<close>
proof -
  let ?w = "world0 (always (JObject []))"
  let ?w' = "world0 (always (JArray []))"
  have p: "list_all plain_char ''/v1/order/status''" "list_all plain_char ''/v1/balances''"
    by (simp_all add: plain_char_def)
  have ws0: "ws []" by (simp add: ws_def)
  have k: "string_body ''order_id'' ''order_id''"
    by (rule string_body_plain) (simp add: plain_char_def)
  have "number_text ''448364249'' (JInteger (of_nat (decimal ''448364249'')))"
    by (rule n_int) (simp_all add: int_text_def isdigit_def decimal_def digit_value_def)
  then have "value_text ''448364249'' (JInteger 448364249)"
    by (intro v_number) (simp add: decimal_def digit_value_def)
  from m_last [OF ws0 ws0 k this]
  have m: \<open>members_text ''"order_id":448364249'' [(''order_id'', JInteger 448364249)]\<close>
    by simp
  have n: "to_string_ull (nonce_of (clock ?w (reads ?w))) = ''1700000000000''"
    "to_string_ull (nonce_of (clock ?w' (reads ?w'))) = ''1700000000000''"
    by (simp_all add: world0_def nonce_of_eq micros_def to_string_ull_def digits10.simps digit_char_def)
  have t: \<open>base64_decode (payload_of (last (sent (snd (authRequest params0 ''/v1/order/status'' ''"order_id":448364249'' ?w)))))
       = ''{"request":"/v1/order/status","nonce":"1700000000000", "order_id":448364249}''\<close>
  proof -
    have \<open>authPayload ''/v1/order/status'' (nonce_of (clock ?w (reads ?w))) ''"order_id":448364249''
          = ''{"request":"/v1/order/status","nonce":"1700000000000", "order_id":448364249}''\<close>
      using n by (simp add: authPayload_def)
    then show ?thesis
      by (simp only: authRequest_last_sent payload_of_signed_request base64_roundtrip)
  qed
  from authRequest_payload_json [of "''/v1/order/status''" _ "[(''order_id'', JInteger 448364249)]" params0 ?w]
       authRequest_payload_json [of "''/v1/balances''" "[]" "[]" params0 ?w']
       p m n
  have v: "value_text (base64_decode (payload_of (last (sent (snd (authRequest params0 ''/v1/order/status''
                [CHR 0x22, CHR ''o'', CHR ''r'', CHR ''d'', CHR ''e'', CHR ''r'', CHR ''_'', CHR ''i'', CHR ''d'',
                 CHR 0x22, CHR '':'', CHR ''4'', CHR ''4'', CHR ''8'', CHR ''3'', CHR ''6'', CHR ''4'', CHR ''2'',
                 CHR ''4'', CHR ''9''] ?w))))))
         (JObject [(''request'', JString ''/v1/order/status''), (''nonce'', JString ''1700000000000''),
                   (''order_id'', JInteger 448364249)])"
    and v': "value_text (base64_decode (payload_of (last (sent (snd (authRequest params0 ''/v1/balances'' [] ?w'))))))
         (JObject [(''request'', JString ''/v1/balances''), (''nonce'', JString ''1700000000000'')])"
    by simp_all
  from v have "value_text ''{\"request\":\"/v1/order/status\",\"nonce\":\"1700000000000\", \"order_id\":448364249}''
         (JObject [(''request'', JString ''/v1/order/status''), (''nonce'', JString ''1700000000000''),
                   (''order_id'', JInteger 448364249)])"
    by (simp only: t)
  with p m t v' show ?thesis by (simp only: simp_thms)
qed

section \<open>Properties of the default number formatting\<close>

lemma up10_norm: "1 \<le> x \<Longrightarrow> 1 \<le> x / 10 ^ up10 x \<and> x / 10 ^ up10 x < 10"
proof (induction x rule: up10.induct)
  case (1 x)
  show ?case
  proof (cases "x < 10")
    case True
    with "1.prems" show ?thesis by (subst (1 2) up10.simps) simp
  next
    case False
    then have "1 \<le> x / 10" by simp
    with "1.IH" False have "1 \<le> x / 10 / 10 ^ up10 (x / 10) \<and> x / 10 / 10 ^ up10 (x / 10) < 10"
      by simp
    with False show ?thesis by (subst (1 2) up10.simps) simp
  qed
qed

lemma down10_norm: "0 < x \<Longrightarrow> x < 1 \<Longrightarrow> 1 \<le> x * 10 ^ down10 x \<and> x * 10 ^ down10 x < 10"
proof (induction x rule: down10.induct)
  case (1 x)
  from "1.prems" have step: "down10 x = Suc (down10 (x * 10))"
    by (subst down10.simps) simp
  show ?case
  proof (cases "x * 10 < 1")
    case True
    with "1.IH" "1.prems" have "1 \<le> x * 10 * 10 ^ down10 (x * 10) \<and> x * 10 * 10 ^ down10 (x * 10) < 10"
      by simp
    then show ?thesis by (simp add: step mult.assoc)
  next
    case False
    then have "down10 (x * 10) = 0" by (subst down10.simps) simp
    with False "1.prems" show ?thesis by (simp add: step)
  qed
qed

lemma scale10_powi: "scale10 x e = x * 10 powi e"
  by (simp add: scale10_def power_int_def field_simps)

lemma powi_neg_nat: "(10::real) powi (- int k) = 1 / 10 ^ k"
  by (simp add: power_int_minus field_simps)

lemma decimal_exponent_norm:
  assumes "0 < a"
  shows "1 \<le> a * 10 powi (- decimal_exponent a) \<and> a * 10 powi (- decimal_exponent a) < 10"
proof (cases "1 \<le> a")
  case True
  with up10_norm [OF True] show ?thesis
    by (simp add: decimal_exponent_def powi_neg_nat)
next
  case False
  with assms down10_norm [of a] show ?thesis
    by (simp add: decimal_exponent_def)
qed

lemma scaled_mantissa:
  assumes "0 < a" and "0 < P"
  shows "10 ^ (P - 1) \<le> scale10 a (int P - 1 - decimal_exponent a)"
    and "scale10 a (int P - 1 - decimal_exponent a) < 10 ^ P"
proof -
  let ?X = "decimal_exponent a"
  have "(10::real) powi (int P - 1 - ?X) = 10 powi (- ?X) * 10 powi (int P - 1)"
    using power_int_add [of "10::real" "- ?X" "int P - 1"] by (simp add: algebra_simps)
  moreover from assms(2) have "(10::real) powi (int P - 1) = 10 ^ (P - 1)"
    by (simp add: power_int_def of_nat_diff)
  ultimately have eq: "scale10 a (int P - 1 - ?X) = (a * 10 powi (- ?X)) * 10 ^ (P - 1)"
    by (simp add: scale10_powi)
  from decimal_exponent_norm [OF assms(1)]
  have lo: "1 \<le> a * 10 powi (- ?X)" and hi: "a * 10 powi (- ?X) < 10" by simp_all
  from lo have "1 * 10 ^ (P - 1) \<le> (a * 10 powi (- ?X)) * (10::real) ^ (P - 1)"
    by (intro mult_right_mono) simp_all
  with eq show "10 ^ (P - 1) \<le> scale10 a (int P - 1 - ?X)" by simp
  from hi have "(a * 10 powi (- ?X)) * (10::real) ^ (P - 1) < 10 * 10 ^ (P - 1)"
    by (intro mult_strict_right_mono) simp_all
  also from assms(2) have "(10::real) * 10 ^ (P - 1) = 10 ^ P"
    by (cases P) simp_all
  finally show "scale10 a (int P - 1 - ?X) < 10 ^ P" by (simp add: eq)
qed

lemma round_half_even_bounds:
  "\<lfloor>y\<rfloor> \<le> round_half_even y" "round_half_even y \<le> \<lfloor>y\<rfloor> + 1"
  by (simp_all add: round_half_even_def Let_def)

lemma round_half_even_range:
  assumes "of_int lo \<le> y" and "y < of_int hi"
  shows "lo \<le> round_half_even y" and "round_half_even y \<le> hi"
proof -
  from assms(1) have "lo \<le> \<lfloor>y\<rfloor>" by (simp add: le_floor_iff)
  with round_half_even_bounds(1) [of y] show "lo \<le> round_half_even y" by linarith
  from assms(2) have "\<lfloor>y\<rfloor> < hi" by (simp add: floor_less_iff)
  with round_half_even_bounds(2) [of y] show "round_half_even y \<le> hi" by linarith
qed



lemma isdigit_digit_char: "k < 10 \<Longrightarrow> isdigit (digit_char k)"
proof -
  assume "k < 10"
  then have "k \<in> {0,1,2,3,4,5,6,7,8,9}" by auto
  then show ?thesis by (auto simp: digit_char_def isdigit_def)
qed

lemma digits10_isdigit: "list_all isdigit (digits10 n)"
proof (induction n rule: digits10.induct)
  case (1 n)
  show ?case
  proof (cases "n < 10")
    case True
    then show ?thesis by (subst digits10.simps) (simp add: isdigit_digit_char)
  next
    case False
    with 1 have "list_all isdigit (digits10 (n div 10))" by simp
    with False show ?thesis by (subst digits10.simps) (simp add: isdigit_digit_char)
  qed
qed

lemma digits10_length: "0 < k \<Longrightarrow> n < 10 ^ k \<Longrightarrow> length (digits10 n) \<le> k"
proof (induction n arbitrary: k rule: digits10.induct)
  case (1 n)
  show ?case
  proof (cases "n < 10")
    case True
    with "1.prems" show ?thesis by (subst digits10.simps) simp
  next
    case False
    from "1.prems" obtain j where k: "k = Suc j" by (cases k) auto
    have "0 < j"
    proof (rule ccontr)
      assume "\<not> 0 < j"
      with k "1.prems" False show False by simp
    qed
    moreover from "1.prems" k have "n div 10 < 10 ^ j"
      by (simp add: less_mult_imp_div_less mult.commute)
    ultimately have "length (digits10 (n div 10)) \<le> j" using "1.IH" False by simp
    with False k show ?thesis by (subst digits10.simps) simp
  qed
qed

lemma strip_zeros_prefix: "\<exists>n. strip_zeros s = take n s"
proof -
  obtain k where "dropWhile (\<lambda>c. c = CHR ''0'') (rev s) = drop k (rev s)"
    using dropWhile_eq_drop by blast
  then have "strip_zeros s = take (length s - k) s"
    by (simp add: strip_zeros_def rev_drop)
  then show ?thesis ..
qed

lemma isdigit_not_e: "isdigit c \<Longrightarrow> c \<noteq> CHR ''e''"
  by (auto simp: isdigit_def)

lemma not_isdigit_point: "\<not> isdigit (CHR ''.'')" "\<not> isdigit (CHR ''-'')"
  by (simp_all add: isdigit_def)

lemma takeWhile_digits:
  "list_all isdigit ds \<Longrightarrow> takeWhile (\<lambda>c. c \<noteq> CHR ''e'') (ds @ r) = ds @ takeWhile (\<lambda>c. c \<noteq> CHR ''e'') r"
  by (induction ds) (simp_all add: isdigit_not_e)

lemma filter_digits: "list_all isdigit ds \<Longrightarrow> filter isdigit ds = ds"
  by (induction ds) simp_all

lemma mantissa_digits_shape:
  assumes "sign = [] \<or> sign = ''-''" and "list_all isdigit i" and "list_all isdigit f"
    and "r = [] \<or> hd r = CHR ''e''"
  shows "mantissa_digits (sign @ with_point i f @ r) = i @ f"
proof -
  have r: "takeWhile (\<lambda>c. c \<noteq> CHR ''e'') r = []"
    using assms(4) by (cases r) auto
  have body: "mantissa_digits (with_point i f @ r) = i @ f"
  proof (cases "f = []")
    case True
    with assms(2) r show ?thesis
      by (simp add: mantissa_digits_def with_point_def takeWhile_digits filter_digits)
  next
    case False
    have "takeWhile (\<lambda>c. c \<noteq> CHR ''e'') (i @ CHR ''.'' # f @ r) = i @ CHR ''.'' # f"
      using assms(2,3) r by (simp add: takeWhile_digits)
    with False assms(2,3) show ?thesis
      by (simp add: mantissa_digits_def with_point_def filter_digits not_isdigit_point)
  qed
  from assms(1) show ?thesis
  proof
    assume "sign = []"
    with body show ?thesis by simp
  next
    assume "sign = ''-''"
    with body show ?thesis by (simp add: mantissa_digits_def not_isdigit_point)
  qed
qed

lemma list_all_take_drop:
  "list_all P xs \<Longrightarrow> list_all P (take n xs)" "list_all P xs \<Longrightarrow> list_all P (drop n xs)"
  by (auto simp: list_all_iff dest: in_set_takeD in_set_dropD)

lemma case_if_pair:
  "(case (if c then (p, q) else (r, s)) of (m, X) \<Rightarrow> F m X)
   = F (if c then p else r) (if c then q else s)"
  by simp

lemma fmt_g_significant:
  assumes P: "0 < P"
  shows "length (significant_digits (fmt_g P x)) \<le> P"
proof (cases "x = 0")
  case True
  have "mantissa_digits ''0'' = ''0''" by (simp add: mantissa_digits_def isdigit_def)
  with True show ?thesis by (simp add: fmt_g_def significant_digits_def)
next
  case False
  define a where "a = \<bar>x\<bar>"
  define X0 where "X0 = decimal_exponent a"
  define m0 where "m0 = round_half_even (scale10 a (int P - 1 - X0))"
  define m where "m = (if m0 = 10 ^ P then 10 ^ (P - 1) else m0)"
  define X where "X = (if m0 = 10 ^ P then X0 + 1 else X0)"
  define ds where "ds = digits10 (nat m)"
  define sign where "sign = (if x < 0 then ''-'' else [])"
  define z where "z = (\<lambda>c. c = CHR ''0'')"
  from False have a: "0 < a" by (simp add: a_def)
  have "scale10 a (int P - 1 - X0) < of_int (10 ^ P)" and "of_int 0 \<le> scale10 a (int P - 1 - X0)"
    using scaled_mantissa [OF a P] by (simp_all add: X0_def order_trans [of 0 "10 ^ (P - 1)"])
  with round_half_even_range [of 0 "scale10 a (int P - 1 - X0)" "10 ^ P"]
  have m0: "0 \<le> m0" "m0 \<le> 10 ^ P" by (simp_all add: m0_def)
  have "(10::int) ^ (P - 1) < 10 ^ P" using P by (intro power_strict_increasing) simp_all
  with m0 have m: "0 \<le> m" "m < 10 ^ P" by (auto simp: m_def)
  then have "nat m < 10 ^ P" by (simp add: nat_less_iff)
  with P have len: "length ds \<le> P" unfolding ds_def by (rule digits10_length)
  have dig: "list_all isdigit ds" unfolding ds_def by (rule digits10_isdigit)
  have sg: "sign = [] \<or> sign = ''-''" by (simp add: sign_def)
  have fmt: "fmt_g P x = sign @
      (if - 4 \<le> X \<and> X < int P
       then (if 0 \<le> X
             then with_point (take (nat X + 1) ds) (strip_zeros (drop (nat X + 1) ds))
             else with_point ''0'' (strip_zeros (replicate (nat (- X - 1)) (CHR ''0'') @ ds)))
       else with_point (take 1 ds) (strip_zeros (drop 1 ds)) @ exponent_text X)"
    unfolding a_def X0_def m0_def m_def X_def ds_def sign_def
    using False by (simp only: fmt_g_def Let_def if_False case_if_pair)
  have split_case: "length (significant_digits (sign @ with_point (take k ds) (strip_zeros (drop k ds)) @ r)) \<le> P"
    if "r = [] \<or> hd r = CHR ''e''" for k r
  proof -
    obtain n where n: "strip_zeros (drop k ds) = take n (drop k ds)"
      using strip_zeros_prefix by blast
    have "mantissa_digits (sign @ with_point (take k ds) (take n (drop k ds)) @ r)
          = take k ds @ take n (drop k ds)"
      using sg dig that by (intro mantissa_digits_shape) (simp_all add: list_all_take_drop)
    moreover have "length (dropWhile z (take k ds @ take n (drop k ds))) \<le> length (take k ds @ take n (drop k ds))"
      by (rule length_dropWhile_le)
    moreover have "length (take k ds @ take n (drop k ds)) \<le> length ds" by simp
    ultimately show ?thesis using len by (simp add: significant_digits_def n z_def)
  qed
  show ?thesis
  proof (cases "- 4 \<le> X \<and> X < int P")
    case fixed: True
    show ?thesis
    proof (cases "0 \<le> X")
      case True
      with fixed fmt split_case [of "[]" "nat X + 1"] show ?thesis by simp
    next
      case False
      let ?zs = "replicate (nat (- X - 1)) (CHR ''0'')"
      obtain n where n: "strip_zeros (?zs @ ds) = take n (?zs @ ds)"
        using strip_zeros_prefix by blast
      let ?f = "take n ?zs @ take (n - length ?zs) ds"
      have f: "take n (?zs @ ds) = ?f" by simp
      have zf: "list_all isdigit (take n ?zs)"
        by (auto simp: list_all_iff isdigit_def dest: in_set_takeD)
      have "mantissa_digits (sign @ with_point ''0'' ?f @ []) = ''0'' @ ?f"
        using sg dig zf by (intro mantissa_digits_shape) (simp_all add: list_all_take_drop isdigit_def)
      moreover have "dropWhile z ((''0'' @ take n ?zs) @ take (n - length ?zs) ds)
                     = dropWhile z (take (n - length ?zs) ds)"
        by (rule dropWhile_append2) (auto simp: z_def dest: in_set_takeD)
      moreover have "length (dropWhile z (take (n - length ?zs) ds)) \<le> length (take (n - length ?zs) ds)"
        by (rule length_dropWhile_le)
      moreover have "length (take (n - length ?zs) ds) \<le> length ds" by simp
      ultimately have "length (significant_digits (sign @ with_point ''0'' ?f)) \<le> P"
        using len by (simp add: significant_digits_def z_def)
      with False fixed fmt n f show ?thesis by simp
    qed
  next
    case False
    have "hd (exponent_text X) = CHR ''e''" by (simp add: exponent_text_def)
    then have "length (significant_digits (sign @ with_point (take 1 ds) (strip_zeros (drop 1 ds))
                 @ exponent_text X)) \<le> P"
      by (intro split_case) simp
    moreover from False fmt
    have "fmt_g P x = sign @ with_point (take 1 ds) (strip_zeros (drop 1 ds)) @ exponent_text X"
      by (simp only: if_False)
    ultimately show ?thesis by (simp only:)
  qed
qed


section \<open>Properties of the order placement\<close>


lemma up10_eq: "10 ^ k \<le> x \<Longrightarrow> x < 10 ^ Suc k \<Longrightarrow> up10 x = k"
proof (induction k arbitrary: x)
  case 0
  then show ?case by (subst up10.simps) simp
next
  case (Suc k)
  have "(10::real) \<le> 10 ^ Suc k" by (simp add: self_le_power)
  with Suc.prems have x: "\<not> x < 10" by linarith
  from Suc.prems have "10 ^ k \<le> x / 10" "x / 10 < 10 ^ Suc k" by simp_all
  then have "up10 (x / 10) = k" by (rule Suc.IH)
  with x show ?case by (subst up10.simps) simp
qed

lemma down10_eq: "0 < x \<Longrightarrow> 1 \<le> x * 10 ^ k \<Longrightarrow> x * 10 ^ k < 10 \<Longrightarrow> down10 x = k"
proof (induction k arbitrary: x)
  case 0
  then show ?case by (subst down10.simps) simp
next
  case (Suc k)
  have "(1::real) \<le> 10 ^ k" by simp
  then have "x * 1 \<le> x * 10 ^ k" using Suc.prems(1) by (intro mult_left_mono) simp_all
  with Suc.prems(3) have x: "x < 1" by simp
  from Suc.prems have "0 < x * 10" "1 \<le> x * 10 * 10 ^ k" "x * 10 * 10 ^ k < 10"
    by (simp_all add: mult.assoc)
  then have "down10 (x * 10) = k" by (rule Suc.IH)
  with x Suc.prems(1) show ?case by (subst down10.simps) simp
qed

lemma round_half_even_eq:
  assumes "of_int n - 1 / 2 < y" and "y < of_int n + 1 / 2"
  shows "round_half_even y = n"
proof (cases "y < of_int n")
  case True
  with assms have f: "\<lfloor>y\<rfloor> = n - 1" by (intro floor_unique) simp_all
  from assms have "1 / 2 < y - of_int (n - 1)" by simp
  with f show ?thesis by (simp add: round_half_even_def)
next
  case False
  with assms have f: "\<lfloor>y\<rfloor> = n" by (intro floor_unique) simp_all
  from assms have "y - of_int n < 1 / 2" by simp
  with f show ?thesis by (simp add: round_half_even_def)
qed

lemma fmt_g_eval:
  assumes "x \<noteq> 0" and "decimal_exponent \<bar>x\<bar> = X"
    and "round_half_even (scale10 \<bar>x\<bar> (int P - 1 - X)) = m" and "m \<noteq> 10 ^ P"
    and "digits10 (nat m) = ds"
  shows "fmt_g P x = (if x < 0 then ''-'' else []) @
      (if - 4 \<le> X \<and> X < int P
       then (if 0 \<le> X
             then with_point (take (nat X + 1) ds) (strip_zeros (drop (nat X + 1) ds))
             else with_point ''0'' (strip_zeros (replicate (nat (- X - 1)) (CHR ''0'') @ ds)))
       else with_point (take 1 ds) (strip_zeros (drop 1 ds)) @ exponent_text X)"
  using assms(1,4) unfolding assms(2,3,5) [symmetric]
  by (simp only: fmt_g_def Let_def if_False case_if_pair)

lemma fmt_g_12345_7:
  assumes "12345.65 < x" and "x < 12345.75"
  shows "fmt_g 6 x = ''12345.7''"
proof -
  from assms have pos: "0 < x" and nz: "x \<noteq> 0" and ab: "\<bar>x\<bar> = x" by simp_all
  from assms have "up10 x = 4" by (intro up10_eq) simp_all
  with assms have X: "decimal_exponent \<bar>x\<bar> = 4" by (simp add: ab decimal_exponent_def)
  have sc: "scale10 \<bar>x\<bar> (int 6 - 1 - 4) = x * 10" by (simp add: ab scale10_def)
  from assms have m: "round_half_even (scale10 \<bar>x\<bar> (int 6 - 1 - 4)) = 123457"
    unfolding sc by (intro round_half_even_eq) simp_all
  have ds: "digits10 (nat 123457) = ''123457''"
    by (simp add: digits10.simps digit_char_def)
  from fmt_g_eval [OF nz X m _ ds] pos show ?thesis
    by (simp add: strip_zeros_def with_point_def)
qed

lemma fmt_g_tenth: "fmt_g 6 0.1 = ''0.1''"
proof -
  have "down10 (0.1::real) = 1" by (intro down10_eq) simp_all
  then have X: "decimal_exponent \<bar>0.1\<bar> = - 1" by (simp add: decimal_exponent_def)
  have m: "round_half_even (scale10 \<bar>0.1\<bar> (int 6 - 1 - (- 1))) = 100000"
    by (intro round_half_even_eq) (simp_all add: scale10_def)
  have ds: "digits10 (nat 100000) = ''100000''"
    by (simp add: digits10.simps digit_char_def)
  from fmt_g_eval [OF _ X m _ ds] show ?thesis
    by (simp add: strip_zeros_def with_point_def)
qed

lemma to_string_ll_0: "to_string_ll 0 = ''0''"
  by (simp add: to_string_ll_def digits10.simps digit_char_def)

lemma json_integer_value_default:
  "(\<forall>n. j \<noteq> Some (JInteger n)) \<Longrightarrow> json_integer_value j = 0"
  by (cases j rule: json_integer_value.cases) simp_all

lemma sendOrder_fst:
  "fst (sendOrder params direction quantity price w) =
     map_sum id (\<lambda>jroot. to_string_ll (json_integer_value (json_object_get (Some jroot) ''order_id'')))
       (exchange w (sent w)
          (signed_request params w ''/v1/order/new'' (nonce_of (clock w (reads w)))
             (order_options direction quantity price)))"
  by (simp add: sendOrder_def Let_def split_beta authRequest_fst signed_request_def split: sum.splits)

lemma sendOrder_sent:
  "sent (snd (sendOrder params direction quantity price w)) =
     sent w @ [signed_request params w ''/v1/order/new'' (nonce_of (clock w (reads w)))
                 (order_options direction quantity price)]"
  by (simp add: sendOrder_def Let_def split_beta authRequest_frame signed_request_def split: sum.splits)


text \<open>
  C10.  The request \<open>sendOrder\<close> sends carries the options with the quantity and the price
  as \<open>fmt_g 6\<close> renders them, the default formatting of an output stream; each rendering
  has at most 6 significant digits; every price between 12345.65 and 12345.75 (12345.678
  and the \<^verbatim>\<open>double\<close> nearest to it among them) is rendered "12345.7".  The identifier
  returned is the decimal numeral of the integer "order_id" of the answer, and "0" when
  the answer has no such member.
\<close>

theorem sendOrder_rendering:
  \<open>sent (snd (sendOrder params direction quantity price w)) =
      sent w @ [signed_request params w ''/v1/order/new'' (nonce_of (clock w (reads w)))
        (''"symbol":"btcusd", "amount":"'' @ fmt_g 6 quantity @ ''", "price":"'' @ fmt_g 6 price
          @ ''", "exchange":"bitfinex", "side":"'' @ direction @ ''", "type":"limit"'')]
   \<and> length (significant_digits (fmt_g 6 quantity)) \<le> 6
   \<and> length (significant_digits (fmt_g 6 price)) \<le> 6
   \<and> (12345.65 < price \<and> price < 12345.75 \<longrightarrow> fmt_g 6 price = ''12345.7'')
   \<and> fst (sendOrder params direction quantity price w) =
       map_sum id (\<lambda>jroot. to_string_ll (json_integer_value (json_object_get (Some jroot) ''order_id'')))
         (fst (authRequest params ''/v1/order/new'' (order_options direction quantity price) w))
   \<and> (\<forall>jroot. fst (authRequest params ''/v1/order/new'' (order_options direction quantity price) w) = Inr jroot
          \<and> json_object_get (Some jroot) ''order_id'' = None \<longrightarrow>
        fst (sendOrder params direction quantity price w) = Inr ''0'')\<close>
proof -
  have r: "fst (sendOrder params direction quantity price w) =
       map_sum id (\<lambda>jroot. to_string_ll (json_integer_value (json_object_get (Some jroot) ''order_id'')))
         (fst (authRequest params ''/v1/order/new'' (order_options direction quantity price) w))"
    by (simp add: sendOrder_fst authRequest_fst signed_request_def)
  have a: "fst (sendOrder params direction quantity price w) = Inr ''0''"
    if "fst (authRequest params ''/v1/order/new'' (order_options direction quantity price) w) = Inr jroot"
      and "json_object_get (Some jroot) ''order_id'' = None" for jroot
    using that by (simp add: r to_string_ll_0)
  have s: \<open>sent (snd (sendOrder params direction quantity price w)) =
      sent w @ [signed_request params w ''/v1/order/new'' (nonce_of (clock w (reads w)))
        (''"symbol":"btcusd", "amount":"'' @ fmt_g 6 quantity @ ''", "price":"'' @ fmt_g 6 price
          @ ''", "exchange":"bitfinex", "side":"'' @ direction @ ''", "type":"limit"'')]\<close>
    by (simp add: sendOrder_sent order_options_def ostream_double_def)
  have d: "length (significant_digits (fmt_g 6 quantity)) \<le> 6"
    "length (significant_digits (fmt_g 6 price)) \<le> 6"
    by (rule fmt_g_significant, simp)+
  from s d r a fmt_g_12345_7 [of price] show ?thesis by blast
qed

theorem sendOrder_rendering_witness:
  \<open>(12345.65::real) < 12345.678 \<and> (12345.678::real) < 12345.75
   \<and> sent (snd (sendOrder params0 ''buy'' 0.1 12345.678 (world0 (always (JObject [(''order_id'', JInteger 448364249)]))))) =
      [signed_request params0 (world0 (always (JObject [(''order_id'', JInteger 448364249)])))
         ''/v1/order/new'' 1700000000000
         ''"symbol":"btcusd", "amount":"0.1", "price":"12345.7", "exchange":"bitfinex", "side":"buy", "type":"limit"'']
   \<and> fst (sendOrder params0 ''buy'' 0.1 12345.678 (world0 (always (JObject [(''order_id'', JInteger 448364249)]))))
       = Inr ''448364249''
   \<and> fst (sendOrder params0 ''buy'' 0.1 12345.678 (world0 (always (JObject [(''message'', JString ''Invalid order.'')]))))
       = Inr ''0''\<close>
proof -
  let ?w = "world0 (always (JObject [(''order_id'', JInteger 448364249)]))"
  let ?w' = "world0 (always (JObject [(''message'', JString ''Invalid order.'')]))"
  have b: "(12345.65::real) < 12345.678" "(12345.678::real) < 12345.75" by simp_all
  have n: "nonce_of (clock ?w (reads ?w)) = 1700000000000"
    by (simp add: world0_def nonce_of_eq micros_def)
  have s0: "sent ?w = []" by (simp add: world0_def)
  have p: "fmt_g 6 12345.678 = ''12345.7''"
    using sendOrder_rendering [of params0 "''buy''" "0.1" "12345.678" ?w] b by blast
  have r: "fst (authRequest params0 ''/v1/order/new'' (order_options ''buy'' 0.1 12345.678) ?w)
           = Inr (JObject [(''order_id'', JInteger 448364249)])"
    and r': "fst (authRequest params0 ''/v1/order/new'' (order_options ''buy'' 0.1 12345.678) ?w')
           = Inr (JObject [(''message'', JString ''Invalid order.'')])"
    by (simp_all add: authRequest_fst world0_def always_def)
  have i: "to_string_ll 448364249 = ''448364249''"
    by (simp add: to_string_ll_def digits10.simps digit_char_def)
  have "sent (snd (sendOrder params0 ''buy'' 0.1 12345.678 ?w)) =
      [signed_request params0 ?w ''/v1/order/new'' 1700000000000
         (''\"symbol\":\"btcusd\", \"amount\":\"'' @ ''0.1'' @ ''\", \"price\":\"'' @ ''12345.7''
          @ ''\", \"exchange\":\"bitfinex\", \"side\":\"'' @ ''buy'' @ ''\", \"type\":\"limit\"'')]"
    using sendOrder_rendering [of params0 "''buy''" "0.1" "12345.678" ?w]
    by (simp only: n s0 p fmt_g_tenth append_Nil)
  moreover have "fst (sendOrder params0 ''buy'' 0.1 12345.678 ?w) = Inr ''448364249''"
    using sendOrder_rendering [of params0 "''buy''" "0.1" "12345.678" ?w] r i by simp
  moreover have "fst (sendOrder params0 ''buy'' 0.1 12345.678 ?w') = Inr ''0''"
    using sendOrder_rendering [of params0 "''buy''" "0.1" "12345.678" ?w'] r' by (simp add: to_string_ll_0)
  ultimately show ?thesis using b by simp
qed

end
